theory Spec2Isabelle
  imports Main "HOL-Library.Word" "HOL-Library.Monad_Syntax" "HOL-Library.Code_Target_Nat"
begin

section \<open>Raw memory: buffers, loads and stores\<close>

text \<open>
  A pinned buffer (\<^verbatim>\<open>handle.Ptr()\<close>) is the list of its bytes and a pointer into it is
  a byte index. The C++ reads and writes through raw pointers; here every access that
  leaves the buffer is the error value \<open>None\<close>. Multi-byte values are stored in the
  byte order of the host, taken to be little-endian.
\<close>

type_synonym byte = "8 word"
type_synonym string_t = "byte list"

definition memread :: "byte list \<Rightarrow> nat \<Rightarrow> nat \<Rightarrow> byte list option" where
  "memread mem ptr n =
     (if ptr + n \<le> length mem then Some (take n (drop ptr mem)) else None)"

definition memcpy :: "byte list \<Rightarrow> nat \<Rightarrow> byte list \<Rightarrow> byte list option" where
  "memcpy mem ptr src =
     (if ptr + length src \<le> length mem
      then Some (take ptr mem @ src @ drop (ptr + length src) mem) else None)"

fun encode_le :: "nat \<Rightarrow> nat \<Rightarrow> byte list" where
  "encode_le 0 v = []"
| "encode_le (Suc n) v = of_nat (v mod 256) # encode_le n (v div 256)"

fun decode_le :: "byte list \<Rightarrow> nat" where
  "decode_le [] = 0"
| "decode_le (b # bs) = unat b + 256 * decode_le bs"

definition to_signed :: "nat \<Rightarrow> nat \<Rightarrow> int" where
  "to_signed w u =
     (if u mod 2 ^ w < 2 ^ (w - 1) then int (u mod 2 ^ w) else int (u mod 2 ^ w) - 2 ^ w)"

definition to_unsigned :: "nat \<Rightarrow> int \<Rightarrow> nat" where
  "to_unsigned w x = nat (x mod 2 ^ w)"

definition Load_uint32 :: "byte list \<Rightarrow> nat \<Rightarrow> nat option" where
  "Load_uint32 mem ptr = map_option decode_le (memread mem ptr 4)"

definition Store_uint32 :: "nat \<Rightarrow> byte list \<Rightarrow> nat \<Rightarrow> byte list option" where
  "Store_uint32 val mem ptr = memcpy mem ptr (encode_le 4 val)"

definition Load_int32 :: "byte list \<Rightarrow> nat \<Rightarrow> int option" where
  "Load_int32 mem ptr = map_option (\<lambda>bs. to_signed 32 (decode_le bs)) (memread mem ptr 4)"

definition Store_int32 :: "int \<Rightarrow> byte list \<Rightarrow> nat \<Rightarrow> byte list option" where
  "Store_int32 val mem ptr = memcpy mem ptr (encode_le 4 (to_unsigned 32 val))"

text \<open>
  \<^verbatim>\<open>block_id_t\<close> is declared in a header that is not part of the sources at hand; it is
  taken to be the 64-bit signed integer, so \<^verbatim>\<open>sizeof(block_id_t)\<close> is 8.
\<close>

definition sizeof_block_id_t :: nat where
  "sizeof_block_id_t = 8"

definition Load_block_id :: "byte list \<Rightarrow> nat \<Rightarrow> int option" where
  "Load_block_id mem ptr =
     map_option (\<lambda>bs. to_signed 64 (decode_le bs)) (memread mem ptr sizeof_block_id_t)"

definition Store_block_id :: "int \<Rightarrow> byte list \<Rightarrow> nat \<Rightarrow> byte list option" where
  "Store_block_id val mem ptr = memcpy mem ptr (encode_le sizeof_block_id_t (to_unsigned 64 val))"

text \<open>
  The casts of the source. \<^verbatim>\<open>UnsafeNumericCast\<close> is a plain conversion (it wraps),
  \<^verbatim>\<open>NumericCast\<close> throws when the value does not fit, and \<^verbatim>\<open>std::abs\<close> on the
  smallest 32-bit integer is undefined.
\<close>

definition UnsafeNumericCast_uint32 :: "int \<Rightarrow> nat" where
  "UnsafeNumericCast_uint32 x = to_unsigned 32 x"

definition UnsafeNumericCast_int32 :: "int \<Rightarrow> int" where
  "UnsafeNumericCast_int32 x = to_signed 32 (to_unsigned 32 x)"

definition NumericCast_uint32 :: "int \<Rightarrow> nat option" where
  "NumericCast_uint32 x = (if 0 \<le> x \<and> x < 2 ^ 32 then Some (nat x) else None)"

definition std_abs :: "int \<Rightarrow> int option" where
  "std_abs x = (if x = - (2 ^ 31) then None else Some \<bar>x\<bar>)"

section \<open>The data model\<close>

text \<open>
  The constants and queries that the source takes from headers outside the sources at
  hand are parameters of the model: the usable block size
  (\<^verbatim>\<open>BlockManager::GetBlockSize\<close>), the identifiers \<^verbatim>\<open>MAXIMUM_BLOCK\<close> and
  \<^verbatim>\<open>INVALID_BLOCK\<close>, the overflow threshold
  (\<^verbatim>\<open>StringUncompressed::GetStringBlockLimit\<close> of the block size) and the compaction
  flush limit (\<^verbatim>\<open>CompressionInfo::GetCompactionFlushLimit\<close>).
\<close>

record StorageInfo =
  block_size :: nat
  MAXIMUM_BLOCK :: int
  INVALID_BLOCK :: int
  string_block_limit :: nat
  compaction_flush_limit :: nat

definition DICTIONARY_HEADER_SIZE :: nat where
  "DICTIONARY_HEADER_SIZE = 4 + 4"

definition BIG_STRING_MARKER_SIZE :: nat where
  "BIG_STRING_MARKER_SIZE = sizeof_block_id_t + 4"

record StringDictionaryContainer =
  dictionary_size :: nat
  dictionary_end :: nat

text \<open>
  The buffer manager and the block manager are collaborators of this code. Their state
  is the contents of every block by identifier (in-memory buffers have identifiers from
  \<^verbatim>\<open>MAXIMUM_BLOCK\<close> on, durable blocks lie below it) and the next identifier of each
  kind. A block handle is modelled by the identifier of its block, and pinning a handle
  is the lookup of the block's bytes.
\<close>

record BufferManager =
  blocks :: "int \<rightharpoonup> byte list"
  temporary_id :: int
  free_block_id :: int

text \<open>
  Modelled from the spec: \<^verbatim>\<open>Allocate(tag, size)\<close> of the buffer manager, which is not
  part of the sources at hand, returns a pinned buffer of the given size under a new
  block handle.
\<close>

definition Allocate :: "BufferManager \<Rightarrow> nat \<Rightarrow> int \<times> BufferManager" where
  "Allocate bm alloc_size =
     (temporary_id bm,
      bm\<lparr>blocks := (blocks bm)(temporary_id bm \<mapsto> replicate alloc_size 0),
         temporary_id := temporary_id bm + 1\<rparr>)"

text \<open>
  The in-memory overflow chain: \<^verbatim>\<open>head\<close> is the list of its nodes, the most recent one
  first (\<^verbatim>\<open>next\<close> of a node is the rest of the list). \<^verbatim>\<open>overflow_blocks\<close> maps a block
  identifier to the node that owns it; the only thing read through that reference is the
  node's block handle, which never changes, so the map holds the handle.
\<close>

record StringBlock =
  sb_block :: int
  sb_offset :: nat
  sb_size :: nat

record WriteOverflowStringsToDisk =
  w_block_id :: int
  w_offset :: nat

record UncompressedStringSegmentState =
  head :: "StringBlock list"
  overflow_blocks :: "int \<rightharpoonup> int"
  on_disk_blocks :: "int list"
  overflow_writer :: "WriteOverflowStringsToDisk option"

record ColumnSegment =
  buffer :: "byte list"
  block_offset :: nat
  count :: nat
  segment_size :: nat
  segment_state :: UncompressedStringSegmentState

text \<open>
  The result vector: its string slots and the buffers it keeps alive. A string value is
  modelled by its bytes, wherever the \<^verbatim>\<open>string_t\<close> of the source points.
\<close>

datatype VectorBuffer = StringHeap nat | OwnedBuffer nat | PinnedBlock int

record Vector =
  data :: "string_t list"
  auxiliary :: "VectorBuffer list"

definition EmptyString :: "Vector \<Rightarrow> nat \<Rightarrow> Vector" where
  "EmptyString result len = result\<lparr>auxiliary := auxiliary result @ [StringHeap len]\<rparr>"

definition AddHandle :: "Vector \<Rightarrow> VectorBuffer \<Rightarrow> Vector" where
  "AddHandle result h = result\<lparr>auxiliary := auxiliary result @ [h]\<rparr>"

definition set_result_data :: "Vector \<Rightarrow> nat \<Rightarrow> string_t \<Rightarrow> Vector option" where
  "set_result_data result idx s =
     (if idx < length (data result) then Some (result\<lparr>data := (data result)[idx := s]\<rparr>)
      else None)"

section \<open>Helper functions of the storage class\<close>

definition SetDictionary :: "ColumnSegment \<Rightarrow> byte list \<Rightarrow> StringDictionaryContainer \<Rightarrow> byte list option" where
  "SetDictionary segment handle container =
     (let startptr = block_offset segment in
      do { h1 \<leftarrow> Store_uint32 (dictionary_size container) handle startptr;
           Store_uint32 (dictionary_end container) h1 (startptr + 4) })"

definition GetDictionary :: "ColumnSegment \<Rightarrow> byte list \<Rightarrow> StringDictionaryContainer option" where
  "GetDictionary segment handle =
     (let startptr = block_offset segment in
      do { sz \<leftarrow> Load_uint32 handle startptr;
           en \<leftarrow> Load_uint32 handle (startptr + 4);
           Some \<lparr>dictionary_size = sz, dictionary_end = en\<rparr> })"

definition GetDictionaryEnd :: "ColumnSegment \<Rightarrow> byte list \<Rightarrow> nat option" where
  "GetDictionaryEnd segment handle = Load_uint32 handle (block_offset segment + 4)"

definition RemainingSpace :: "ColumnSegment \<Rightarrow> byte list \<Rightarrow> nat option" where
  "RemainingSpace segment handle =
     do { dictionary \<leftarrow> GetDictionary segment handle;
          let used_space = dictionary_size dictionary + count segment * 4 + DICTIONARY_HEADER_SIZE;
          Some (nat ((int (segment_size segment) - int used_space) mod 2 ^ 64)) }"

definition ReadString :: "byte list \<Rightarrow> nat \<Rightarrow> nat \<Rightarrow> string_t option" where
  "ReadString target offset string_length = memread target offset string_length"

definition ReadStringWithLength :: "byte list \<Rightarrow> nat \<Rightarrow> string_t option" where
  "ReadStringWithLength target offset =
     do { str_length \<leftarrow> Load_uint32 target offset;
          memread target (offset + 4) str_length }"

definition WriteStringMarker :: "byte list \<Rightarrow> nat \<Rightarrow> int \<Rightarrow> int \<Rightarrow> byte list option" where
  "WriteStringMarker mem target block_id offset =
     do { m1 \<leftarrow> Store_block_id block_id mem target;
          Store_int32 offset m1 (target + sizeof_block_id_t) }"

definition ReadStringMarker :: "byte list \<Rightarrow> nat \<Rightarrow> (int \<times> int) option" where
  "ReadStringMarker mem target =
     do { block_id \<leftarrow> Load_block_id mem target;
          offset \<leftarrow> Load_int32 mem (target + sizeof_block_id_t);
          Some (block_id, offset) }"

section \<open>The overflow store\<close>

definition WriteStringMemory ::
  "StorageInfo \<Rightarrow> BufferManager \<Rightarrow> ColumnSegment \<Rightarrow> string_t \<Rightarrow>
     (BufferManager \<times> ColumnSegment \<times> int \<times> int) option" where
  "WriteStringMemory cfg bm segment string =
     (let total_length = UnsafeNumericCast_uint32 (int (length string + 4));
          state = segment_state segment;
          fresh = (case head state of [] \<Rightarrow> True
                   | h # _ \<Rightarrow> sb_offset h + total_length \<ge> sb_size h);
          (bm1, state1) =
            (if fresh then
               (let alloc_size = max total_length (block_size cfg);
                    (block, bm') = Allocate bm alloc_size;
                    new_block = \<lparr>sb_block = block, sb_offset = 0, sb_size = alloc_size\<rparr>
                in (bm', state\<lparr>head := new_block # head state,
                                overflow_blocks :=
                                  (if overflow_blocks state block = None
                                   then (overflow_blocks state)(block \<mapsto> sb_block new_block)
                                   else overflow_blocks state)\<rparr>))
             else (bm, state))
      in case head state1 of
           [] \<Rightarrow> None
         | h # rest \<Rightarrow>
             do { handle \<leftarrow> blocks bm1 (sb_block h);
                  let result_block = sb_block h;
                  let result_offset = UnsafeNumericCast_int32 (int (sb_offset h));
                  h1 \<leftarrow> Store_uint32 (UnsafeNumericCast_uint32 (int (length string))) handle (sb_offset h);
                  h2 \<leftarrow> memcpy h1 (sb_offset h + 4) string;
                  Some (bm1\<lparr>blocks := (blocks bm1)(sb_block h \<mapsto> h2)\<rparr>,
                        segment\<lparr>segment_state :=
                          state1\<lparr>head := h\<lparr>sb_offset := sb_offset h + total_length\<rparr> # rest\<rparr>\<rparr>,
                        result_block, result_offset) })"

text \<open>
  The copy loop of the durable read path. The source copies each piece to the target
  buffer; the model returns the pieces, concatenated. The loop does not return when a
  chain never ends, which is the value \<open>None\<close> here, as is every read outside a block.
\<close>

partial_function (option) read_overflow_loop ::
  "StorageInfo \<Rightarrow> BufferManager \<Rightarrow> byte list \<Rightarrow> nat \<Rightarrow> nat \<Rightarrow> string_t option" where
  "read_overflow_loop cfg bm handle offset remaining =
     (if remaining > 0 then
        (let to_write = min remaining
               (nat ((int (block_size cfg) - int sizeof_block_id_t - int offset) mod 2 ^ 64)) in
         do { piece \<leftarrow> memread handle offset to_write;
              if remaining - to_write > 0 then
                do { next_block \<leftarrow> Load_block_id handle (offset + to_write);
                     handle' \<leftarrow> blocks bm next_block;
                     rest \<leftarrow> read_overflow_loop cfg bm handle' 0 (remaining - to_write);
                     Some (piece @ rest) }
              else Some piece })
      else Some [])"

declare read_overflow_loop.simps [code]

definition ReadOverflowString ::
  "StorageInfo \<Rightarrow> BufferManager \<Rightarrow> ColumnSegment \<Rightarrow> Vector \<Rightarrow> int \<Rightarrow> int \<Rightarrow>
     (string_t \<times> Vector) option" where
  "ReadOverflowString cfg bm segment result block offset =
     (if offset < 0 then None
      else if block < MAXIMUM_BLOCK cfg then
        do { handle \<leftarrow> blocks bm block;
             len \<leftarrow> Load_uint32 handle (nat offset);
             let allocate_block = (len \<ge> block_size cfg);
             str \<leftarrow> read_overflow_loop cfg bm handle (nat offset + 4) len;
             if allocate_block then Some (str, AddHandle result (OwnedBuffer len))
             else Some (str, EmptyString result len) }
      else
        do { entry \<leftarrow> overflow_blocks (segment_state segment) block;
             handle \<leftarrow> blocks bm entry;
             str \<leftarrow> ReadStringWithLength handle (nat offset);
             Some (str, AddHandle result (PinnedBlock entry)) })"

text \<open>
  Modelled from the spec: the checkpoint-time overflow writer
  (\<^verbatim>\<open>WriteOverflowStringsToDisk\<close>), which is not part of the sources at hand. It stores a
  32-bit length and then the payload, across as many durable blocks as needed; each
  block keeps its trailing \<^verbatim>\<open>sizeof(block_id_t)\<close> bytes for the identifier of the next
  block of the chain, and every block it starts is added to the segment's list of
  durable overflow blocks.
\<close>

definition AllocateNewBlock ::
  "StorageInfo \<Rightarrow> BufferManager \<Rightarrow> UncompressedStringSegmentState \<Rightarrow> WriteOverflowStringsToDisk \<Rightarrow>
     (BufferManager \<times> UncompressedStringSegmentState \<times> WriteOverflowStringsToDisk) option" where
  "AllocateNewBlock cfg bm state w =
     (let new_block_id = free_block_id bm in
      do { blks \<leftarrow>
             (if w_block_id w = INVALID_BLOCK cfg then Some (blocks bm)
              else do { handle \<leftarrow> blocks bm (w_block_id w);
                        handle' \<leftarrow> Store_block_id new_block_id handle
                                     (block_size cfg - sizeof_block_id_t);
                        Some ((blocks bm)(w_block_id w \<mapsto> handle')) });
           Some (bm\<lparr>blocks := blks(new_block_id \<mapsto> replicate (block_size cfg) 0),
                    free_block_id := new_block_id + 1\<rparr>,
                 state\<lparr>on_disk_blocks := on_disk_blocks state @ [new_block_id]\<rparr>,
                 \<lparr>w_block_id = new_block_id, w_offset = 0\<rparr>) })"

function write_overflow_payload ::
  "StorageInfo \<Rightarrow> BufferManager \<Rightarrow> UncompressedStringSegmentState \<Rightarrow> WriteOverflowStringsToDisk \<Rightarrow>
     byte list \<Rightarrow>
     (BufferManager \<times> UncompressedStringSegmentState \<times> WriteOverflowStringsToDisk) option" where
  "write_overflow_payload cfg bm state w str =
     (if str = [] then Some (bm, state, w)
      else if block_size cfg \<le> w_offset w + sizeof_block_id_t then None
      else
        (let to_write = min (length str) (block_size cfg - sizeof_block_id_t - w_offset w) in
         do { handle \<leftarrow> blocks bm (w_block_id w);
              handle' \<leftarrow> memcpy handle (w_offset w) (take to_write str);
              if to_write < length str then
                do { (bm2, state2, w2) \<leftarrow>
                       AllocateNewBlock cfg (bm\<lparr>blocks := (blocks bm)(w_block_id w \<mapsto> handle')\<rparr>)
                         state (w\<lparr>w_offset := w_offset w + to_write\<rparr>);
                     write_overflow_payload cfg bm2 state2 w2 (drop to_write str) }
              else Some (bm\<lparr>blocks := (blocks bm)(w_block_id w \<mapsto> handle')\<rparr>, state,
                         w\<lparr>w_offset := w_offset w + to_write\<rparr>) }))"
  by pat_completeness auto
termination
  by (relation "measure (\<lambda>(cfg, bm, state, w, str). length str)")
     (auto simp: sizeof_block_id_t_def)

declare write_overflow_payload.simps [simp del]

definition WriteOverflowStringsToDisk_WriteString ::
  "StorageInfo \<Rightarrow> BufferManager \<Rightarrow> UncompressedStringSegmentState \<Rightarrow> WriteOverflowStringsToDisk \<Rightarrow>
     string_t \<Rightarrow> (BufferManager \<times> UncompressedStringSegmentState \<times> int \<times> int) option" where
  "WriteOverflowStringsToDisk_WriteString cfg bm state w string =
     do { (bm1, state1, w1) \<leftarrow>
            (if w_block_id w = INVALID_BLOCK cfg
                \<or> w_offset w + 2 * 4 \<ge> block_size cfg - sizeof_block_id_t
             then AllocateNewBlock cfg bm state w else Some (bm, state, w));
          let result_block = w_block_id w1;
          let result_offset = UnsafeNumericCast_int32 (int (w_offset w1));
          handle \<leftarrow> blocks bm1 (w_block_id w1);
          handle' \<leftarrow> Store_uint32 (UnsafeNumericCast_uint32 (int (length string))) handle (w_offset w1);
          (bm2, state2, w2) \<leftarrow>
            write_overflow_payload cfg (bm1\<lparr>blocks := (blocks bm1)(w_block_id w1 \<mapsto> handle')\<rparr>)
              state1 (w1\<lparr>w_offset := w_offset w1 + 4\<rparr>) string;
          Some (bm2, state2\<lparr>overflow_writer := Some w2\<rparr>, result_block, result_offset) }"

definition WriteString ::
  "StorageInfo \<Rightarrow> BufferManager \<Rightarrow> ColumnSegment \<Rightarrow> string_t \<Rightarrow>
     (BufferManager \<times> ColumnSegment \<times> int \<times> int) option" where
  "WriteString cfg bm segment string =
     (case overflow_writer (segment_state segment) of
        Some w \<Rightarrow>
          do { (bm', state', result_block, result_offset) \<leftarrow>
                 WriteOverflowStringsToDisk_WriteString cfg bm (segment_state segment) w string;
               Some (bm', segment\<lparr>segment_state := state'\<rparr>, result_block, result_offset) }
      | None \<Rightarrow> WriteStringMemory cfg bm segment string)"

section \<open>Scan, select and fetch\<close>

definition base_data :: "ColumnSegment \<Rightarrow> byte list \<Rightarrow> nat \<Rightarrow> int option" where
  "base_data segment handle i =
     Load_int32 handle (block_offset segment + DICTIONARY_HEADER_SIZE + 4 * i)"

text \<open>
  Modelled from the spec: \<^verbatim>\<open>FetchStringFromDict\<close> is defined in the header of the
  storage class, which is not part of the sources at hand. A non-negative entry is read
  inline at \<open>dictionary.end - offset\<close>, with the given length; for a negative entry the
  fixed-size overflow marker is read at \<open>dictionary.end - abs(offset)\<close> and resolved by
  the overflow store.
\<close>

definition FetchStringFromDict ::
  "StorageInfo \<Rightarrow> BufferManager \<Rightarrow> ColumnSegment \<Rightarrow> nat \<Rightarrow> Vector \<Rightarrow> byte list \<Rightarrow>
     int \<Rightarrow> nat \<Rightarrow> (string_t \<times> Vector) option" where
  "FetchStringFromDict cfg bm segment dict_end_offset result handle dict_offset string_length =
     (let dict_pos = int (block_offset segment + dict_end_offset) - \<bar>dict_offset\<bar> in
      if dict_pos < 0 then None
      else if dict_offset \<ge> 0 then
        do { s \<leftarrow> ReadString handle (nat dict_pos) string_length;
             Some (s, result) }
      else
        do { (block, offset) \<leftarrow> ReadStringMarker handle (nat dict_pos);
             ReadOverflowString cfg bm segment result block offset })"

fun scan_loop ::
  "StorageInfo \<Rightarrow> BufferManager \<Rightarrow> ColumnSegment \<Rightarrow> nat \<Rightarrow> nat \<Rightarrow> nat \<Rightarrow> nat \<Rightarrow> nat \<Rightarrow>
     int \<Rightarrow> Vector \<Rightarrow> Vector option" where
  "scan_loop cfg bm segment dict_end start result_offset i 0 previous_offset result =
     Some result"
| "scan_loop cfg bm segment dict_end start result_offset i (Suc n) previous_offset result =
     do { current_offset \<leftarrow> base_data segment (buffer segment) (start + i);
          a \<leftarrow> std_abs current_offset;
          b \<leftarrow> std_abs previous_offset;
          let string_length = UnsafeNumericCast_uint32 (a - b);
          (s, result1) \<leftarrow> FetchStringFromDict cfg bm segment dict_end result (buffer segment)
                            current_offset string_length;
          result2 \<leftarrow> set_result_data result1 (result_offset + i) s;
          scan_loop cfg bm segment dict_end start result_offset (i + 1) n current_offset result2 }"

definition StringScanPartial ::
  "StorageInfo \<Rightarrow> BufferManager \<Rightarrow> ColumnSegment \<Rightarrow> nat \<Rightarrow> nat \<Rightarrow> Vector \<Rightarrow> nat \<Rightarrow>
     Vector option" where
  "StringScanPartial cfg bm segment start scan_count result result_offset =
     do { dict_end \<leftarrow> GetDictionaryEnd segment (buffer segment);
          previous_offset \<leftarrow>
            (if start > 0 then base_data segment (buffer segment) (start - 1) else Some 0);
          scan_loop cfg bm segment dict_end start result_offset 0 scan_count previous_offset
            result }"

definition StringScan ::
  "StorageInfo \<Rightarrow> BufferManager \<Rightarrow> ColumnSegment \<Rightarrow> nat \<Rightarrow> nat \<Rightarrow> Vector \<Rightarrow> Vector option" where
  "StringScan cfg bm segment start scan_count result =
     StringScanPartial cfg bm segment start scan_count result 0"

fun select_loop ::
  "StorageInfo \<Rightarrow> BufferManager \<Rightarrow> ColumnSegment \<Rightarrow> nat \<Rightarrow> nat \<Rightarrow> nat list \<Rightarrow> nat \<Rightarrow> nat \<Rightarrow>
     Vector \<Rightarrow> Vector option" where
  "select_loop cfg bm segment dict_end start sel i 0 result = Some result"
| "select_loop cfg bm segment dict_end start sel i (Suc n) result =
     (if i < length sel then
        (let index = start + sel ! i in
         do { current_offset \<leftarrow> base_data segment (buffer segment) index;
              prev_offset \<leftarrow>
                (if index > 0 then base_data segment (buffer segment) (index - 1) else Some 0);
              a \<leftarrow> std_abs current_offset;
              b \<leftarrow> std_abs prev_offset;
              let string_length = UnsafeNumericCast_uint32 (a - b);
              (s, result1) \<leftarrow> FetchStringFromDict cfg bm segment dict_end result (buffer segment)
                                current_offset string_length;
              result2 \<leftarrow> set_result_data result1 i s;
              select_loop cfg bm segment dict_end start sel (i + 1) n result2 })
      else None)"

definition Select ::
  "StorageInfo \<Rightarrow> BufferManager \<Rightarrow> ColumnSegment \<Rightarrow> nat \<Rightarrow> Vector \<Rightarrow> nat list \<Rightarrow> nat \<Rightarrow>
     Vector option" where
  "Select cfg bm segment start result sel sel_count =
     do { dict_end \<leftarrow> GetDictionaryEnd segment (buffer segment);
          select_loop cfg bm segment dict_end start sel 0 sel_count result }"

definition StringFetchRow ::
  "StorageInfo \<Rightarrow> BufferManager \<Rightarrow> ColumnSegment \<Rightarrow> nat \<Rightarrow> Vector \<Rightarrow> nat \<Rightarrow> Vector option" where
  "StringFetchRow cfg bm segment row_id result result_idx =
     do { dict_end \<leftarrow> GetDictionaryEnd segment (buffer segment);
          dict_offset \<leftarrow> base_data segment (buffer segment) row_id;
          string_length \<leftarrow>
            (if row_id = 0 then
               do { a \<leftarrow> std_abs dict_offset;
                    NumericCast_uint32 a }
             else
               do { previous \<leftarrow> base_data segment (buffer segment) (row_id - 1);
                    a \<leftarrow> std_abs dict_offset;
                    b \<leftarrow> std_abs previous;
                    NumericCast_uint32 (a - b) });
          (s, result1) \<leftarrow> FetchStringFromDict cfg bm segment dict_end result (buffer segment)
                            dict_offset string_length;
          set_result_data result1 result_idx s }"

section \<open>Append\<close>

record SerializedStringSegmentState =
  ser_blocks :: "int list"

definition StringInitSegment ::
  "StorageInfo \<Rightarrow> ColumnSegment \<Rightarrow> int \<Rightarrow> SerializedStringSegmentState option \<Rightarrow>
     ColumnSegment option" where
  "StringInitSegment cfg segment block_id segment_state_p =
     do { handle \<leftarrow>
            (if block_id = INVALID_BLOCK cfg then
               SetDictionary segment (buffer segment)
                 \<lparr>dictionary_size = 0,
                  dictionary_end = UnsafeNumericCast_uint32 (int (segment_size segment))\<rparr>
             else Some (buffer segment));
          let result = \<lparr>head = [], overflow_blocks = Map.empty, on_disk_blocks = [],
                        overflow_writer = None\<rparr>;
          let result' = (case segment_state_p of
                           Some serialized_state \<Rightarrow>
                             result\<lparr>on_disk_blocks := ser_blocks serialized_state\<rparr>
                         | None \<Rightarrow> result);
          Some (segment\<lparr>buffer := handle, segment_state := result'\<rparr>) }"

text \<open>
  Modelled from the spec: \<^verbatim>\<open>StringAppend\<close> is defined in the header of the storage
  class, which is not part of the sources at hand. A value at or above the overflow
  threshold goes to the overflow store and a marker of fixed size is written to the
  dictionary, under a negative cumulative offset; any other value is copied to the
  dictionary, which grows backward from \<open>dictionary.end\<close>, under a positive cumulative
  offset. Either way \<open>dictionary.size\<close> grows by the increment, the new offset is
  appended to the offset array and the row count grows by one. The caller checks the
  capacity.
\<close>

definition StringAppend ::
  "StorageInfo \<Rightarrow> BufferManager \<Rightarrow> ColumnSegment \<Rightarrow> string_t \<Rightarrow>
     (BufferManager \<times> ColumnSegment) option" where
  "StringAppend cfg bm segment v =
     do { dictionary \<leftarrow> GetDictionary segment (buffer segment);
          if length v \<ge> string_block_limit cfg then
            do { (bm', segment', block, offset) \<leftarrow> WriteString cfg bm segment v;
                 let new_size = dictionary_size dictionary + BIG_STRING_MARKER_SIZE;
                 if block_offset segment + dictionary_end dictionary < new_size then None
                 else
                   do { h1 \<leftarrow> WriteStringMarker (buffer segment')
                                (block_offset segment + dictionary_end dictionary - new_size) block offset;
                        h2 \<leftarrow> Store_int32 (- int new_size) h1
                                (block_offset segment + DICTIONARY_HEADER_SIZE + 4 * count segment);
                        h3 \<leftarrow> SetDictionary segment h2 (dictionary\<lparr>dictionary_size := new_size\<rparr>);
                        Some (bm', segment'\<lparr>buffer := h3, count := count segment + 1\<rparr>) } }
          else
            (let new_size = dictionary_size dictionary + length v in
             if block_offset segment + dictionary_end dictionary < new_size then None
             else
               do { h1 \<leftarrow> memcpy (buffer segment)
                            (block_offset segment + dictionary_end dictionary - new_size) v;
                    h2 \<leftarrow> Store_int32 (int new_size) h1
                            (block_offset segment + DICTIONARY_HEADER_SIZE + 4 * count segment);
                    h3 \<leftarrow> SetDictionary segment h2 (dictionary\<lparr>dictionary_size := new_size\<rparr>);
                    Some (bm, segment\<lparr>buffer := h3, count := count segment + 1\<rparr>) }) }"

fun append_all ::
  "StorageInfo \<Rightarrow> BufferManager \<Rightarrow> ColumnSegment \<Rightarrow> string_t list \<Rightarrow>
     (BufferManager \<times> ColumnSegment) option" where
  "append_all cfg bm segment [] = Some (bm, segment)"
| "append_all cfg bm segment (v # vs) =
     do { (bm', segment') \<leftarrow> StringAppend cfg bm segment v;
          append_all cfg bm' segment' vs }"

definition FinalizeAppend :: "StorageInfo \<Rightarrow> ColumnSegment \<Rightarrow> (nat \<times> ColumnSegment) option" where
  "FinalizeAppend cfg segment =
     do { dict \<leftarrow> GetDictionary segment (buffer segment);
          let offset_size = DICTIONARY_HEADER_SIZE + count segment * 4;
          let total_size = offset_size + dictionary_size dict;
          if total_size \<ge> compaction_flush_limit cfg then Some (segment_size segment, segment)
          else
            (let move_amount = nat ((int (segment_size segment) - int total_size) mod 2 ^ 64) in
             if dictionary_end dict < dictionary_size dict then None
             else
               do { moved \<leftarrow> memread (buffer segment) (dictionary_end dict - dictionary_size dict)
                               (dictionary_size dict);
                    h1 \<leftarrow> memcpy (buffer segment) offset_size moved;
                    let dict' = dict\<lparr>dictionary_end :=
                                  UnsafeNumericCast_uint32 (int (dictionary_end dict) - int move_amount)\<rparr>;
                    h2 \<leftarrow> SetDictionary segment h1 dict';
                    Some (total_size, segment\<lparr>buffer := h2\<rparr>) }) }"

section \<open>Serialization of the segment state\<close>

text \<open>
  Modelled from the spec: the serialization framework, which is not part of the sources
  at hand, reads and writes a named field that holds an ordered list of block
  identifiers. A serializer is the list of the fields written so far; reading a field
  that is not the next one of the stream fails.
\<close>

type_synonym Serializer = "(nat \<times> string \<times> int list) list"

definition WriteProperty :: "Serializer \<Rightarrow> nat \<Rightarrow> string \<Rightarrow> int list \<Rightarrow> Serializer" where
  "WriteProperty serializer field_id tag val = serializer @ [(field_id, tag, val)]"

definition ReadProperty :: "Serializer \<Rightarrow> nat \<Rightarrow> string \<Rightarrow> (int list \<times> Serializer) option" where
  "ReadProperty deserializer field_id tag =
     (case deserializer of
        [] \<Rightarrow> None
      | (f, t, val) # rest \<Rightarrow> if f = field_id \<and> t = tag then Some (val, rest) else None)"

definition Serialize :: "SerializedStringSegmentState \<Rightarrow> Serializer \<Rightarrow> Serializer" where
  "Serialize st serializer = WriteProperty serializer 1 ''overflow_blocks'' (ser_blocks st)"

definition SerializeState :: "ColumnSegment \<Rightarrow> SerializedStringSegmentState option" where
  "SerializeState segment =
     (let state = segment_state segment in
      if on_disk_blocks state = [] then None
      else Some \<lparr>ser_blocks = on_disk_blocks state\<rparr>)"

definition DeserializeState :: "Serializer \<Rightarrow> SerializedStringSegmentState option" where
  "DeserializeState deserializer =
     do { (val, rest) \<leftarrow> ReadProperty deserializer 1 ''overflow_blocks'';
          Some \<lparr>ser_blocks = val\<rparr> }"

section \<open>Example configurations\<close>

definition example_state :: "int list \<Rightarrow> UncompressedStringSegmentState" where
  "example_state bs = \<lparr>head = [], overflow_blocks = Map.empty, on_disk_blocks = bs,
     overflow_writer = None\<rparr>"

definition example_segment :: "int list \<Rightarrow> ColumnSegment" where
  "example_segment bs = \<lparr>buffer = replicate 32 0, block_offset = 0, count = 0, segment_size = 32,
     segment_state = example_state bs\<rparr>"

definition example_config :: StorageInfo where
  "example_config = \<lparr>block_size = 32, MAXIMUM_BLOCK = 4611686018427388000, INVALID_BLOCK = - 1,
     string_block_limit = 8, compaction_flush_limit = 24\<rparr>"

definition dense_segment :: ColumnSegment where
  "dense_segment = \<lparr>buffer = [20, 0, 0, 0, 32, 0, 0, 0] @ replicate 24 0, block_offset = 0,
     count = 1, segment_size = 32, segment_state = example_state []\<rparr>"

definition example_bm :: BufferManager where
  "example_bm = \<lparr>blocks = Map.empty, temporary_id = 4611686018427388000, free_block_id = 0\<rparr>"

definition small_segment :: ColumnSegment where
  "small_segment = \<lparr>buffer = [3, 0, 0, 0, 32, 0, 0, 0, 1, 0, 0, 0, 3, 0, 0, 0] @ replicate 13 0
       @ [98, 98, 97],
     block_offset = 0, count = 2, segment_size = 32, segment_state = example_state []\<rparr>"

definition example_vector :: "nat \<Rightarrow> Vector" where
  "example_vector n = \<lparr>data = replicate n [], auxiliary = []\<rparr>"

text \<open>
  Following the spec's words (section 4.3): the current head buffer has room for a given
  number of bytes. It is compared with the test of \<^verbatim>\<open>WriteStringMemory\<close> below.
\<close>

definition head_has_room :: "StringBlock list \<Rightarrow> nat \<Rightarrow> bool" where
  "head_has_room chain n =
     (case chain of [] \<Rightarrow> False | h # _ \<Rightarrow> sb_offset h + n \<le> sb_size h)"

definition overflow_bm :: BufferManager where
  "overflow_bm = \<lparr>blocks = Map.empty(4611686018427388000 \<mapsto> replicate 32 0),
     temporary_id = 4611686018427388001, free_block_id = 0\<rparr>"

definition overflow_segment :: "nat \<Rightarrow> ColumnSegment" where
  "overflow_segment used = \<lparr>buffer = replicate 32 0, block_offset = 0, count = 0, segment_size = 32,
     segment_state = \<lparr>head = [\<lparr>sb_block = 4611686018427388000, sb_offset = used, sb_size = 32\<rparr>],
       overflow_blocks = Map.empty(4611686018427388000 \<mapsto> 4611686018427388000),
       on_disk_blocks = [], overflow_writer = None\<rparr>\<rparr>"

definition durable_payload :: "byte list" where
  "durable_payload = [1, 2, 3, 4, 5, 6, 7, 8, 9, 10, 11, 12, 13, 14, 15, 16, 17, 18, 19, 20, 21, 22,
     23, 24, 25, 26, 27, 28, 29, 30, 31, 32]"


definition example_values :: "string_t list" where
  "example_values = [[97, 98, 99], [1, 2, 3, 4, 5, 6, 7, 8]]"

definition fresh_writer :: WriteOverflowStringsToDisk where
  "fresh_writer = \<lparr>w_block_id = - 1, w_offset = 0\<rparr>"

definition compact_values :: "string_t list" where
  "compact_values = [[97, 98], [99]]"

section \<open>The value of a row\<close>

text \<open>
  Notions for the proofs: the string that the reader builds for one row from the offset
  of the row and the offset before it, without the result vector. They are not part of
  the code; the lemmas below relate the loops of the code to them.
\<close>

definition empty_vector :: Vector where
  "empty_vector = \<lparr>data = [], auxiliary = []\<rparr>"

definition fetched_string ::
  "StorageInfo \<Rightarrow> BufferManager \<Rightarrow> ColumnSegment \<Rightarrow> nat \<Rightarrow> int \<Rightarrow> nat \<Rightarrow> string_t option" where
  "fetched_string cfg bm segment dict_end dict_offset string_length =
     map_option fst
       (FetchStringFromDict cfg bm segment dict_end empty_vector (buffer segment) dict_offset
          string_length)"

definition offset_before :: "ColumnSegment \<Rightarrow> nat \<Rightarrow> int option" where
  "offset_before segment index =
     (if index > 0 then base_data segment (buffer segment) (index - 1) else Some 0)"

definition row_string ::
  "StorageInfo \<Rightarrow> BufferManager \<Rightarrow> ColumnSegment \<Rightarrow> nat \<Rightarrow> nat \<Rightarrow> string_t option" where
  "row_string cfg bm segment dict_end index =
     do { current_offset \<leftarrow> base_data segment (buffer segment) index;
          previous_offset \<leftarrow> offset_before segment index;
          a \<leftarrow> std_abs current_offset;
          b \<leftarrow> std_abs previous_offset;
          fetched_string cfg bm segment dict_end current_offset (UnsafeNumericCast_uint32 (a - b)) }"


section \<open>Invariants of the overflow store\<close>

text \<open>
  Notions for the proofs. A string is held by the in-memory store at a marker when the
  marker's block is known to the side index and its buffer has the length prefix and
  the bytes at the marker's offset, below the write offset if the block is the head.
\<close>

definition memory_string_at ::
  "StorageInfo \<Rightarrow> BufferManager \<Rightarrow> UncompressedStringSegmentState \<Rightarrow> int \<Rightarrow> int \<Rightarrow> string_t \<Rightarrow> bool" where
  "memory_string_at cfg bm state block offset v \<longleftrightarrow>
     MAXIMUM_BLOCK cfg \<le> block \<and> 0 \<le> offset
     \<and> (\<exists>entry buf. overflow_blocks state block = Some entry
            \<and> MAXIMUM_BLOCK cfg \<le> entry \<and> entry < temporary_id bm
            \<and> blocks bm entry = Some buf
            \<and> Load_uint32 buf (nat offset) = Some (length v)
            \<and> memread buf (nat offset + 4) (length v) = Some v
            \<and> (\<forall>h rest. head state = h # rest \<longrightarrow> sb_block h = entry \<longrightarrow>
                   nat offset + 4 + length v \<le> sb_offset h))"

definition memory_inv ::
  "StorageInfo \<Rightarrow> BufferManager \<Rightarrow> UncompressedStringSegmentState \<Rightarrow> bool" where
  "memory_inv cfg bm state \<longleftrightarrow>
     MAXIMUM_BLOCK cfg \<le> temporary_id bm
     \<and> (\<forall>b. b \<ge> temporary_id bm \<longrightarrow> overflow_blocks state b = None)
     \<and> (\<forall>h rest. head state = h # rest \<longrightarrow>
            MAXIMUM_BLOCK cfg \<le> sb_block h \<and> sb_block h < temporary_id bm
            \<and> sb_offset h \<le> sb_size h \<and> sb_size h < 2 ^ 31
            \<and> overflow_blocks state (sb_block h) = Some (sb_block h)
            \<and> (\<exists>buf. blocks bm (sb_block h) = Some buf \<and> sb_size h \<le> length buf))"

text \<open>
  A payload is held by the durable store from a position on when the blocks of its
  chain lie below the next free block identifier, each piece fills its block up to the
  trailing pointer, which names the block of the next piece, and the last piece ends
  below the position of the writer if it lies in the writer's block.
\<close>

function chain_at ::
  "StorageInfo \<Rightarrow> BufferManager \<Rightarrow> int \<Rightarrow> nat \<Rightarrow> int \<Rightarrow> nat \<Rightarrow> byte list \<Rightarrow> bool" where
  "chain_at cfg bm wblock woffset block offset str =
     (INVALID_BLOCK cfg < block \<and> block < free_block_id bm
      \<and> offset + sizeof_block_id_t \<le> block_size cfg
      \<and> (case blocks bm block of
            None \<Rightarrow> False
          | Some buf \<Rightarrow>
              length buf = block_size cfg
              \<and> (if length str \<le> block_size cfg - sizeof_block_id_t - offset
                  then memread buf offset (length str) = Some str
                       \<and> (wblock = block \<longrightarrow> offset + length str \<le> woffset)
                  else if offset + sizeof_block_id_t < block_size cfg
                  then wblock \<noteq> block
                       \<and> memread buf offset (block_size cfg - sizeof_block_id_t - offset)
                           = Some (take (block_size cfg - sizeof_block_id_t - offset) str)
                       \<and> (case Load_block_id buf (block_size cfg - sizeof_block_id_t) of
                             None \<Rightarrow> False
                           | Some next_block \<Rightarrow>
                               chain_at cfg bm wblock woffset next_block 0
                                 (drop (block_size cfg - sizeof_block_id_t - offset) str))
                  else False)))"
  by pat_completeness auto
termination
  by (relation "measure (\<lambda>(cfg, bm, wblock, woffset, block, offset, str). length str)") auto

declare chain_at.simps [simp del]

definition writer_block :: "StorageInfo \<Rightarrow> UncompressedStringSegmentState \<Rightarrow> int" where
  "writer_block cfg state =
     (case overflow_writer state of None \<Rightarrow> INVALID_BLOCK cfg | Some w \<Rightarrow> w_block_id w)"

definition writer_offset :: "UncompressedStringSegmentState \<Rightarrow> nat" where
  "writer_offset state = (case overflow_writer state of None \<Rightarrow> 0 | Some w \<Rightarrow> w_offset w)"

definition disk_string_at ::
  "StorageInfo \<Rightarrow> BufferManager \<Rightarrow> UncompressedStringSegmentState \<Rightarrow> int \<Rightarrow> int \<Rightarrow> string_t \<Rightarrow> bool" where
  "disk_string_at cfg bm state block offset v \<longleftrightarrow>
     block < MAXIMUM_BLOCK cfg \<and> 0 \<le> offset
     \<and> (\<exists>buf. blocks bm block = Some buf
            \<and> Load_uint32 buf (nat offset) = Some (length v)
            \<and> chain_at cfg bm (writer_block cfg state) (writer_offset state) block
                 (nat offset + 4) v)"

definition disk_inv ::
  "StorageInfo \<Rightarrow> BufferManager \<Rightarrow> UncompressedStringSegmentState \<Rightarrow> bool" where
  "disk_inv cfg bm state \<longleftrightarrow>
     INVALID_BLOCK cfg < free_block_id bm \<and> free_block_id bm \<le> MAXIMUM_BLOCK cfg
     \<and> (\<forall>w. overflow_writer state = Some w \<longrightarrow> w_block_id w \<noteq> INVALID_BLOCK cfg \<longrightarrow>
            INVALID_BLOCK cfg < w_block_id w \<and> w_block_id w < free_block_id bm
            \<and> w_offset w + sizeof_block_id_t \<le> block_size cfg
            \<and> (\<exists>buf. blocks bm (w_block_id w) = Some buf \<and> length buf = block_size cfg))"

definition overflow_string_at ::
  "StorageInfo \<Rightarrow> BufferManager \<Rightarrow> UncompressedStringSegmentState \<Rightarrow> int \<Rightarrow> int \<Rightarrow> string_t \<Rightarrow> bool" where
  "overflow_string_at cfg bm state block offset v \<longleftrightarrow>
     - (2 ^ 63) \<le> block \<and> block < 2 ^ 63 \<and> offset < 2 ^ 31
     \<and> (memory_string_at cfg bm state block offset v \<or> disk_string_at cfg bm state block offset v)"

definition overflow_inv ::
  "StorageInfo \<Rightarrow> BufferManager \<Rightarrow> UncompressedStringSegmentState \<Rightarrow> bool" where
  "overflow_inv cfg bm state \<longleftrightarrow> memory_inv cfg bm state \<and> disk_inv cfg bm state"

text \<open>
  What a step of the durable writer may change: blocks below the next free identifier
  stay as they are but for the writer's block, which keeps its length and its bytes
  below the writer's offset; the writer stays in its block and moves forward, or moves
  to a new block.
\<close>

definition disk_extends ::
  "BufferManager \<Rightarrow> int \<Rightarrow> nat \<Rightarrow> BufferManager \<Rightarrow> int \<Rightarrow> nat \<Rightarrow> bool" where
  "disk_extends bm wb wo bm' wb' wo' \<longleftrightarrow>
     free_block_id bm \<le> free_block_id bm'
     \<and> (\<forall>id. id < free_block_id bm \<longrightarrow> id \<noteq> wb \<longrightarrow> blocks bm' id = blocks bm id)
     \<and> (\<forall>buf. blocks bm wb = Some buf \<longrightarrow> wb < free_block_id bm \<longrightarrow>
            (\<exists>buf'. blocks bm' wb = Some buf' \<and> length buf' = length buf
               \<and> (\<forall>p n. p + n \<le> wo \<longrightarrow> memread buf' p n = memread buf p n)))
     \<and> ((wb' = wb \<and> wo \<le> wo') \<or> free_block_id bm \<le> wb')"


section \<open>Invariant of a segment\<close>

text \<open>
  Notions for the proofs. The dictionary bytes that a value takes, the dictionary bytes
  that a list of values takes, the offset entry of a row, and what it means that a row
  of a list of values is stored in a segment whose dictionary ends at a given position;
  for a value in the overflow store, the marker names a durable block exactly when an
  overflow writer is attached to the segment.
\<close>

definition required_space :: "StorageInfo \<Rightarrow> string_t \<Rightarrow> nat" where
  "required_space cfg v =
     (if string_block_limit cfg \<le> length v then BIG_STRING_MARKER_SIZE else length v)"

definition used_space :: "StorageInfo \<Rightarrow> string_t list \<Rightarrow> nat" where
  "used_space cfg vs = sum_list (map (required_space cfg) vs)"

definition offset_entry :: "StorageInfo \<Rightarrow> string_t list \<Rightarrow> nat \<Rightarrow> int" where
  "offset_entry cfg vs i =
     (if string_block_limit cfg \<le> length (vs ! i)
      then - int (used_space cfg (take (Suc i) vs))
      else int (used_space cfg (take (Suc i) vs)))"

definition row_stored ::
  "StorageInfo \<Rightarrow> BufferManager \<Rightarrow> ColumnSegment \<Rightarrow> nat \<Rightarrow> string_t list \<Rightarrow> nat \<Rightarrow> bool" where
  "row_stored cfg bm segment dict_end vs i \<longleftrightarrow>
     base_data segment (buffer segment) i = Some (offset_entry cfg vs i)
     \<and> used_space cfg (take (Suc i) vs) \<le> dict_end
     \<and> (if string_block_limit cfg \<le> length (vs ! i)
         then \<exists>block offset.
                ReadStringMarker (buffer segment) (dict_end - used_space cfg (take (Suc i) vs))
                  = Some (block, offset)
                \<and> overflow_string_at cfg bm (segment_state segment) block offset (vs ! i)
                \<and> (block < MAXIMUM_BLOCK cfg
                     \<longleftrightarrow> overflow_writer (segment_state segment) \<noteq> None)
         else memread (buffer segment) (dict_end - used_space cfg (take (Suc i) vs))
                (length (vs ! i)) = Some (vs ! i))"

definition segment_inv ::
  "StorageInfo \<Rightarrow> BufferManager \<Rightarrow> ColumnSegment \<Rightarrow> string_t list \<Rightarrow> bool" where
  "segment_inv cfg bm segment vs \<longleftrightarrow>
     block_offset segment = 0 \<and> length (buffer segment) = block_size cfg
     \<and> segment_size segment = block_size cfg \<and> count segment = length vs
     \<and> GetDictionary segment (buffer segment)
         = Some \<lparr>dictionary_size = used_space cfg vs, dictionary_end = block_size cfg\<rparr>
     \<and> DICTIONARY_HEADER_SIZE + 4 * length vs + used_space cfg vs \<le> block_size cfg
     \<and> (\<forall>i < length vs. row_stored cfg bm segment (block_size cfg) vs i)
     \<and> overflow_inv cfg bm (segment_state segment)"


section \<open>Lemmas about raw memory\<close>

lemma length_encode_le [simp]: "length (encode_le n v) = n"
  by (induction n arbitrary: v) auto

lemma decode_encode_le: "decode_le (encode_le n v) = v mod 256 ^ n"
proof (induction n arbitrary: v)
  case 0
  then show ?case by simp
next
  case (Suc n)
  have "unat (of_nat (v mod 256) :: byte) = v mod 256"
    by (simp add: unat_of_nat)
  then have "decode_le (encode_le (Suc n) v) = v mod 256 + 256 * (v div 256 mod 256 ^ n)"
    using Suc.IH by simp
  also have "\<dots> = v mod 256 ^ Suc n"
    by (simp add: mod_mult2_eq)
  finally show ?case .
qed

lemma decode_le_bound: "decode_le bs < 256 ^ length bs"
proof (induction bs)
  case Nil
  then show ?case by simp
next
  case (Cons b bs)
  have "unat b < 256" using unsigned_less [of b, where 'a=nat] by simp
  with Cons show ?case by simp
qed

lemma to_signed_to_unsigned:
  assumes "0 < w" and "- (2 ^ (w - 1)) \<le> x" and "x < 2 ^ (w - 1)"
  shows "to_signed w (to_unsigned w x) = x"
proof -
  have p: "(2::int) ^ w = 2 * 2 ^ (w - 1)"
    using assms(1) by (cases w) auto
  have m: "to_unsigned w x mod 2 ^ w = to_unsigned w x"
    by (simp add: to_unsigned_def nat_mod_distrib nat_power_eq)
  show ?thesis
  proof (cases "0 \<le> x")
    case True
    then have "x mod 2 ^ w = x" using assms p by simp
    then show ?thesis using True assms p unfolding to_signed_def m
      by (simp add: to_unsigned_def nat_less_iff)
  next
    case False
    have "(x + 2 ^ w) mod 2 ^ w = x + 2 ^ w"
      using False assms p by (intro mod_pos_pos_trivial) auto
    then have "x mod 2 ^ w = x + 2 ^ w"
      by simp
    then show ?thesis using False assms p unfolding to_signed_def m
      by (simp add: to_unsigned_def nat_less_iff)
  qed
qed

lemma memread_Some: "memread mem ptr n = Some bs \<Longrightarrow> length bs = n \<and> ptr + n \<le> length mem"
  by (auto simp: memread_def split: if_splits)

lemma memcpy_length: "memcpy mem ptr src = Some mem' \<Longrightarrow> length mem' = length mem"
  by (auto simp: memcpy_def split: if_splits)

lemma memcpy_Some: "ptr + length src \<le> length mem \<Longrightarrow> \<exists>mem'. memcpy mem ptr src = Some mem'"
  by (simp add: memcpy_def)

lemma memread_memcpy_same:
  "memcpy mem ptr src = Some mem' \<Longrightarrow> memread mem' ptr (length src) = Some src"
  by (auto simp: memcpy_def memread_def split: if_splits)

lemma memread_memcpy_other:
  assumes "memcpy mem ptr src = Some mem'" and "p + n \<le> ptr \<or> ptr + length src \<le> p"
  shows "memread mem' p n = memread mem p n"
proof -
  from assms(1) have le: "ptr + length src \<le> length mem"
    and eq: "mem' = take ptr mem @ src @ drop (ptr + length src) mem"
    by (auto simp: memcpy_def split: if_splits)
  have len: "length mem' = length mem" using le eq by simp
  show ?thesis
  proof (cases "p + n \<le> length mem")
    case False
    then show ?thesis by (simp add: memread_def len)
  next
    case True
    have "take n (drop p mem') = take n (drop p mem)"
    proof (rule nth_equalityI)
      show "length (take n (drop p mem')) = length (take n (drop p mem))"
        using len by simp
    next
      fix i assume "i < length (take n (drop p mem'))"
      then have i: "i < n" "p + i < length mem" using len by auto
      have "mem' ! (p + i) = mem ! (p + i)"
      proof (cases "p + n \<le> ptr")
        case True
        then show ?thesis using i eq le by (simp add: nth_append)
      next
        case False
        with assms(2) have "ptr + length src \<le> p" by simp
        then show ?thesis using i eq le
          by (auto simp: nth_append)
      qed
      then show "take n (drop p mem') ! i = take n (drop p mem) ! i"
        using i len by simp
    qed
    then show ?thesis using True by (simp add: memread_def len)
  qed
qed

lemma memcpy_memread_other_len:
  "memcpy mem ptr src = Some mem' \<Longrightarrow> length src = k \<Longrightarrow> p + n \<le> ptr \<or> ptr + k \<le> p \<Longrightarrow>
     memread mem' p n = memread mem p n"
  using memread_memcpy_other by blast

lemma Store_uint32_length: "Store_uint32 v mem p = Some mem' \<Longrightarrow> length mem' = length mem"
  unfolding Store_uint32_def by (rule memcpy_length)

lemma Store_int32_length: "Store_int32 v mem p = Some mem' \<Longrightarrow> length mem' = length mem"
  unfolding Store_int32_def by (rule memcpy_length)

lemma Store_block_id_length: "Store_block_id v mem p = Some mem' \<Longrightarrow> length mem' = length mem"
  unfolding Store_block_id_def by (rule memcpy_length)

lemma Store_uint32_Some: "p + 4 \<le> length mem \<Longrightarrow> \<exists>mem'. Store_uint32 v mem p = Some mem'"
  unfolding Store_uint32_def by (simp add: memcpy_def)

lemma Store_int32_Some: "p + 4 \<le> length mem \<Longrightarrow> \<exists>mem'. Store_int32 v mem p = Some mem'"
  unfolding Store_int32_def by (simp add: memcpy_def)

lemma Store_block_id_Some: "p + 8 \<le> length mem \<Longrightarrow> \<exists>mem'. Store_block_id v mem p = Some mem'"
  unfolding Store_block_id_def by (simp add: memcpy_def sizeof_block_id_t_def)

lemma Store_uint32_other:
  "Store_uint32 v mem ptr = Some mem' \<Longrightarrow> p + n \<le> ptr \<or> ptr + 4 \<le> p \<Longrightarrow>
     memread mem' p n = memread mem p n"
  unfolding Store_uint32_def by (erule memcpy_memread_other_len) auto

lemma Store_int32_other:
  "Store_int32 v mem ptr = Some mem' \<Longrightarrow> p + n \<le> ptr \<or> ptr + 4 \<le> p \<Longrightarrow>
     memread mem' p n = memread mem p n"
  unfolding Store_int32_def by (erule memcpy_memread_other_len) auto

lemma Store_block_id_other:
  "Store_block_id v mem ptr = Some mem' \<Longrightarrow> p + n \<le> ptr \<or> ptr + 8 \<le> p \<Longrightarrow>
     memread mem' p n = memread mem p n"
  unfolding Store_block_id_def
  by (erule memcpy_memread_other_len) (auto simp: sizeof_block_id_t_def)

lemma Load_uint32_Store_uint32:
  assumes "Store_uint32 v mem p = Some mem'" and "v < 2 ^ 32"
  shows "Load_uint32 mem' p = Some v"
proof -
  have "memread mem' p 4 = Some (encode_le 4 v)"
    using memread_memcpy_same [of mem p "encode_le 4 v" mem'] assms(1)
    by (simp add: Store_uint32_def)
  moreover have "v mod 256 ^ 4 = v" using assms(2) by simp
  ultimately show ?thesis by (simp add: Load_uint32_def decode_encode_le)
qed

lemma Load_int32_Store_int32:
  assumes "Store_int32 v mem p = Some mem'" and "- (2 ^ 31) \<le> v" and "v < 2 ^ 31"
  shows "Load_int32 mem' p = Some v"
proof -
  have "memread mem' p 4 = Some (encode_le 4 (to_unsigned 32 v))"
    using memread_memcpy_same [of mem p "encode_le 4 (to_unsigned 32 v)" mem'] assms(1)
    by (simp add: Store_int32_def)
  moreover have "to_unsigned 32 v < 2 ^ 32"
    by (simp add: to_unsigned_def nat_less_iff)
  then have "to_unsigned 32 v mod 256 ^ 4 = to_unsigned 32 v" by simp
  moreover have "to_signed 32 (to_unsigned 32 v) = v"
    using assms by (intro to_signed_to_unsigned) auto
  ultimately show ?thesis by (simp add: Load_int32_def decode_encode_le)
qed

lemma Load_block_id_Store_block_id:
  assumes "Store_block_id v mem p = Some mem'" and "- (2 ^ 63) \<le> v" and "v < 2 ^ 63"
  shows "Load_block_id mem' p = Some v"
proof -
  have "memread mem' p 8 = Some (encode_le 8 (to_unsigned 64 v))"
    using memread_memcpy_same [of mem p "encode_le 8 (to_unsigned 64 v)" mem'] assms(1)
    by (simp add: Store_block_id_def sizeof_block_id_t_def)
  moreover have "to_unsigned 64 v < 2 ^ 64"
    by (simp add: to_unsigned_def nat_less_iff)
  then have "to_unsigned 64 v mod 256 ^ 8 = to_unsigned 64 v" by simp
  moreover have "to_signed 64 (to_unsigned 64 v) = v"
    using assms by (intro to_signed_to_unsigned) auto
  ultimately show ?thesis by (simp add: Load_block_id_def decode_encode_le sizeof_block_id_t_def)
qed

lemma Load_uint32_cong: "memread mem' p 4 = memread mem p 4 \<Longrightarrow> Load_uint32 mem' p = Load_uint32 mem p"
  by (simp add: Load_uint32_def)

lemma Load_int32_cong: "memread mem' p 4 = memread mem p 4 \<Longrightarrow> Load_int32 mem' p = Load_int32 mem p"
  by (simp add: Load_int32_def)

lemma Load_block_id_cong: "memread mem' p 8 = memread mem p 8 \<Longrightarrow> Load_block_id mem' p = Load_block_id mem p"
  by (simp add: Load_block_id_def sizeof_block_id_t_def)

lemma WriteStringMarker_Some:
  assumes "target + BIG_STRING_MARKER_SIZE \<le> length mem"
  shows "\<exists>mem'. WriteStringMarker mem target block_id offset = Some mem'"
proof -
  from assms obtain m1 where m1: "Store_block_id block_id mem target = Some m1"
    using Store_block_id_Some [of target mem block_id]
    by (auto simp: BIG_STRING_MARKER_SIZE_def sizeof_block_id_t_def)
  then have "length m1 = length mem" by (rule Store_block_id_length)
  with assms obtain m2 where "Store_int32 offset m1 (target + sizeof_block_id_t) = Some m2"
    using Store_int32_Some [of "target + sizeof_block_id_t" m1 offset]
    by (auto simp: BIG_STRING_MARKER_SIZE_def sizeof_block_id_t_def)
  with m1 show ?thesis by (simp add: WriteStringMarker_def)
qed

lemma WriteStringMarker_length:
  "WriteStringMarker mem target block_id offset = Some mem' \<Longrightarrow> length mem' = length mem"
  by (auto simp: WriteStringMarker_def split: bind_splits
      dest!: Store_block_id_length Store_int32_length)

lemma WriteStringMarker_other:
  assumes "WriteStringMarker mem target block_id offset = Some mem'"
    and "p + n \<le> target \<or> target + BIG_STRING_MARKER_SIZE \<le> p"
  shows "memread mem' p n = memread mem p n"
proof -
  from assms(1) obtain m1 where m1: "Store_block_id block_id mem target = Some m1"
    and m2: "Store_int32 offset m1 (target + sizeof_block_id_t) = Some mem'"
    by (auto simp: WriteStringMarker_def split: bind_splits)
  have "memread mem' p n = memread m1 p n"
    using m2 assms(2)
    by (intro Store_int32_other [OF m2]) (auto simp: BIG_STRING_MARKER_SIZE_def sizeof_block_id_t_def)
  also have "\<dots> = memread mem p n"
    using assms(2)
    by (intro Store_block_id_other [OF m1]) (auto simp: BIG_STRING_MARKER_SIZE_def sizeof_block_id_t_def)
  finally show ?thesis .
qed

lemma ReadStringMarker_WriteStringMarker:
  assumes w: "WriteStringMarker mem target block_id offset = Some mem'"
    and b: "- (2 ^ 63) \<le> block_id" "block_id < 2 ^ 63"
    and o: "- (2 ^ 31) \<le> offset" "offset < 2 ^ 31"
  shows "Load_block_id mem' target = Some block_id"
    and "Load_int32 mem' (target + sizeof_block_id_t) = Some offset"
    and "ReadStringMarker mem' target = Some (block_id, offset)"
proof -
  from w obtain m1 where m1: "Store_block_id block_id mem target = Some m1"
    and m2: "Store_int32 offset m1 (target + sizeof_block_id_t) = Some mem'"
    by (auto simp: WriteStringMarker_def split: bind_splits)
  have "memread mem' target 8 = memread m1 target 8"
    by (rule Store_int32_other [OF m2]) (simp add: sizeof_block_id_t_def)
  then have "Load_block_id mem' target = Load_block_id m1 target"
    by (rule Load_block_id_cong)
  with m1 b show 1: "Load_block_id mem' target = Some block_id"
    by (simp add: Load_block_id_Store_block_id)
  from m2 o show 2: "Load_int32 mem' (target + sizeof_block_id_t) = Some offset"
    by (rule Load_int32_Store_int32)
  from 1 2 show "ReadStringMarker mem' target = Some (block_id, offset)"
    by (simp add: ReadStringMarker_def)
qed

section \<open>Lemmas about the reader\<close>

lemma ReadOverflowString_frame:
  "ReadOverflowString cfg bm segment result block offset =
     map_option (\<lambda>(s, e). (s, result\<lparr>auxiliary := auxiliary result @ auxiliary e\<rparr>))
       (ReadOverflowString cfg bm segment empty_vector block offset)"
proof (cases "offset < 0")
  case True
  then show ?thesis by (simp add: ReadOverflowString_def)
next
  case nonneg: False
  show ?thesis
  proof (cases "block < MAXIMUM_BLOCK cfg")
    case True
    show ?thesis
    proof (cases "blocks bm block")
      case None
      with nonneg True show ?thesis by (simp add: ReadOverflowString_def)
    next
      case (Some handle)
      show ?thesis
      proof (cases "Load_uint32 handle (nat offset)")
        case None
        with nonneg True Some show ?thesis by (simp add: ReadOverflowString_def)
      next
        case len: (Some len)
        show ?thesis
        proof (cases "read_overflow_loop cfg bm handle (nat offset + 4) len")
          case None
          with nonneg True Some len show ?thesis by (simp add: ReadOverflowString_def)
        next
          case str: (Some str)
          with nonneg True Some len show ?thesis
            by (simp add: ReadOverflowString_def AddHandle_def EmptyString_def empty_vector_def)
        qed
      qed
    qed
  next
    case False
    show ?thesis
    proof (cases "overflow_blocks (segment_state segment) block")
      case None
      with nonneg False show ?thesis by (simp add: ReadOverflowString_def)
    next
      case (Some entry)
      show ?thesis
      proof (cases "blocks bm entry")
        case None
        with nonneg False Some show ?thesis by (simp add: ReadOverflowString_def)
      next
        case handle: (Some handle)
        show ?thesis
        proof (cases "ReadStringWithLength handle (nat offset)")
          case None
          with nonneg False Some handle show ?thesis by (simp add: ReadOverflowString_def)
        next
          case str: (Some str)
          with nonneg False Some handle show ?thesis
            by (simp add: ReadOverflowString_def AddHandle_def empty_vector_def)
        qed
      qed
    qed
  qed
qed

lemma FetchStringFromDict_frame:
  "FetchStringFromDict cfg bm segment dict_end result handle dict_offset string_length =
     map_option (\<lambda>(s, e). (s, result\<lparr>auxiliary := auxiliary result @ auxiliary e\<rparr>))
       (FetchStringFromDict cfg bm segment dict_end empty_vector handle dict_offset string_length)"
proof (cases "int (block_offset segment + dict_end) - \<bar>dict_offset\<bar> < 0")
  case True
  then show ?thesis by (simp add: FetchStringFromDict_def)
next
  case pos: False
  show ?thesis
  proof (cases "0 \<le> dict_offset")
    case True
    show ?thesis
    proof (cases "ReadString handle (nat (int (block_offset segment + dict_end) - \<bar>dict_offset\<bar>))
                    string_length")
      case None
      with pos True show ?thesis by (simp add: FetchStringFromDict_def)
    next
      case (Some s)
      with pos True show ?thesis by (simp add: FetchStringFromDict_def empty_vector_def)
    qed
  next
    case False
    show ?thesis
    proof (cases "ReadStringMarker handle (nat (int (block_offset segment + dict_end) - \<bar>dict_offset\<bar>))")
      case None
      with pos False show ?thesis by (simp add: FetchStringFromDict_def)
    next
      case (Some m)
      obtain block offset where m: "m = (block, offset)" by (cases m)
      show ?thesis
        using pos False Some m ReadOverflowString_frame [of cfg bm segment result block offset]
        by (simp add: FetchStringFromDict_def)
    qed
  qed
qed

lemma FetchStringFromDict_data:
  assumes "FetchStringFromDict cfg bm segment dict_end result (buffer segment) dict_offset
             string_length = Some (s, result1)"
  shows "data result1 = data result"
    and "fetched_string cfg bm segment dict_end dict_offset string_length = Some s"
  using assms
    FetchStringFromDict_frame [of cfg bm segment dict_end result "buffer segment" dict_offset
      string_length]
  by (auto simp: fetched_string_def)

lemma FetchStringFromDict_fetched:
  assumes "fetched_string cfg bm segment dict_end dict_offset string_length = Some s"
  shows "\<exists>result1. FetchStringFromDict cfg bm segment dict_end result (buffer segment) dict_offset
       string_length = Some (s, result1) \<and> data result1 = data result"
  using assms
    FetchStringFromDict_frame [of cfg bm segment dict_end result "buffer segment" dict_offset
      string_length]
  by (auto simp: fetched_string_def)

lemma set_result_data_Some:
  "idx < length (data result) \<Longrightarrow>
     \<exists>r. set_result_data result idx s = Some r \<and> data r = (data result)[idx := s]"
  by (simp add: set_result_data_def)

lemma set_result_data_data:
  "set_result_data result idx s = Some r \<Longrightarrow>
     idx < length (data result) \<and> data r = (data result)[idx := s]"
  by (auto simp: set_result_data_def split: if_splits)

lemma offset_before_Suc:
  "offset_before segment (Suc k) = base_data segment (buffer segment) k"
  by (simp add: offset_before_def)

lemma row_string_SomeD:
  assumes "row_string cfg bm segment dict_end index = Some v"
  obtains cur prev a b where "base_data segment (buffer segment) index = Some cur"
    and "offset_before segment index = Some prev"
    and "std_abs cur = Some a" and "std_abs prev = Some b"
    and "fetched_string cfg bm segment dict_end cur (UnsafeNumericCast_uint32 (a - b)) = Some v"
  using assms unfolding row_string_def by (auto split: Option.bind_splits)

lemma row_string_SomeI:
  assumes "base_data segment (buffer segment) index = Some cur"
    and "offset_before segment index = Some prev"
    and "std_abs cur = Some a" and "std_abs prev = Some b"
    and "fetched_string cfg bm segment dict_end cur (UnsafeNumericCast_uint32 (a - b)) = Some v"
  shows "row_string cfg bm segment dict_end index = Some v"
  using assms unfolding row_string_def by simp

lemma scan_loop_Some:
  assumes "offset_before segment (start + i) = Some prev"
    and "\<forall>j<n. row_string cfg bm segment dict_end (start + i + j) = Some (vs ! j)"
    and "length vs = n"
    and "result_offset + i + n \<le> length (data result)"
  shows "\<exists>r. scan_loop cfg bm segment dict_end start result_offset i n prev result = Some r
           \<and> data r = take (result_offset + i) (data result) @ vs
                        @ drop (result_offset + i + n) (data result)"
  using assms
proof (induction n arbitrary: i prev result vs)
  case 0
  then show ?case by simp
next
  case (Suc n)
  from Suc.prems(3) obtain v vs' where vs: "vs = v # vs'" and len: "length vs' = n"
    by (cases vs) auto
  from Suc.prems(2) have "row_string cfg bm segment dict_end (start + i) = Some v"
    using vs by force
  then obtain cur prev' a b where cur: "base_data segment (buffer segment) (start + i) = Some cur"
    and prev': "offset_before segment (start + i) = Some prev'"
    and a: "std_abs cur = Some a" and b: "std_abs prev' = Some b"
    and f: "fetched_string cfg bm segment dict_end cur (UnsafeNumericCast_uint32 (a - b)) = Some v"
    by (rule row_string_SomeD)
  from prev' Suc.prems(1) have pp: "prev' = prev" by simp
  from FetchStringFromDict_fetched [OF f, of result] obtain r1 where
    r1: "FetchStringFromDict cfg bm segment dict_end result (buffer segment) cur
           (UnsafeNumericCast_uint32 (a - b)) = Some (v, r1)"
    and d1: "data r1 = data result" by blast
  have lt: "result_offset + i < length (data r1)" using Suc.prems(4) d1 by simp
  from set_result_data_Some [OF lt, of v] obtain r2 where
    r2: "set_result_data r1 (result_offset + i) v = Some r2"
    and d2: "data r2 = (data result)[result_offset + i := v]" using d1 by auto
  have ob: "offset_before segment (start + (i + 1)) = Some cur"
    using cur by (simp add: offset_before_def)
  have rows: "\<forall>j<n. row_string cfg bm segment dict_end (start + (i + 1) + j) = Some (vs' ! j)"
  proof (intro allI impI)
    fix j assume "j < n"
    then have "row_string cfg bm segment dict_end (start + i + Suc j) = Some (vs ! Suc j)"
      using Suc.prems(2) by blast
    then show "row_string cfg bm segment dict_end (start + (i + 1) + j) = Some (vs' ! j)"
      using vs by (simp add: add.assoc)
  qed
  have room: "result_offset + (i + 1) + n \<le> length (data r2)"
    using Suc.prems(4) d2 by simp
  from Suc.IH [OF ob rows len room] obtain r where
    r: "scan_loop cfg bm segment dict_end start result_offset (i + 1) n cur r2 = Some r"
    and dr: "data r = take (result_offset + (i + 1)) (data r2) @ vs'
                       @ drop (result_offset + (i + 1) + n) (data r2)" by blast
  have step: "scan_loop cfg bm segment dict_end start result_offset i (Suc n) prev result = Some r"
    using cur a b pp r1 r2 r by simp
  have t: "take (result_offset + (i + 1)) (data r2) = take (result_offset + i) (data result) @ [v]"
    using Suc.prems(4) d2 by (simp add: take_Suc_conv_app_nth)
  have d: "drop (result_offset + (i + 1) + n) (data r2)
             = drop (result_offset + i + Suc n) (data result)"
    using d2 by simp
  show ?case using step dr t d vs by simp
qed

lemma scan_loop_rows:
  assumes "scan_loop cfg bm segment dict_end start result_offset i n prev result = Some r"
    and "offset_before segment (start + i) = Some prev"
  shows "length (data r) = length (data result)
       \<and> (\<forall>k < result_offset + i. data r ! k = data result ! k)
       \<and> (\<forall>j<n. result_offset + i + j < length (data result)
                \<and> row_string cfg bm segment dict_end (start + i + j)
                    = Some (data r ! (result_offset + i + j)))"
  using assms
proof (induction n arbitrary: i prev result)
  case 0
  then show ?case by simp
next
  case (Suc n)
  from Suc.prems(1) obtain cur a b v r1 r2 where
    cur: "base_data segment (buffer segment) (start + i) = Some cur"
    and a: "std_abs cur = Some a" and b: "std_abs prev = Some b"
    and r1: "FetchStringFromDict cfg bm segment dict_end result (buffer segment) cur
           (UnsafeNumericCast_uint32 (a - b)) = Some (v, r1)"
    and r2: "set_result_data r1 (result_offset + i) v = Some r2"
    and r: "scan_loop cfg bm segment dict_end start result_offset (i + 1) n cur r2 = Some r"
    by (auto split: Option.bind_splits)
  from FetchStringFromDict_data [OF r1] have d1: "data r1 = data result"
    and f: "fetched_string cfg bm segment dict_end cur (UnsafeNumericCast_uint32 (a - b)) = Some v"
    by auto
  from set_result_data_data [OF r2] d1 have lt: "result_offset + i < length (data result)"
    and d2: "data r2 = (data result)[result_offset + i := v]" by auto
  have ob: "offset_before segment (start + (i + 1)) = Some cur"
    using cur by (simp add: offset_before_def)
  from Suc.IH [OF r ob] have len: "length (data r) = length (data r2)"
    and low: "\<forall>k < result_offset + (i + 1). data r ! k = data r2 ! k"
    and rows: "\<forall>j<n. result_offset + (i + 1) + j < length (data r2)
                \<and> row_string cfg bm segment dict_end (start + (i + 1) + j)
                    = Some (data r ! (result_offset + (i + 1) + j))"
    by auto
  have row0: "row_string cfg bm segment dict_end (start + i) = Some v"
    using cur Suc.prems(2) a b f by (rule row_string_SomeI)
  have v: "data r ! (result_offset + i) = v"
    using low d2 lt by simp
  have "\<forall>j<Suc n. result_offset + i + j < length (data result)
                \<and> row_string cfg bm segment dict_end (start + i + j)
                    = Some (data r ! (result_offset + i + j))"
  proof (intro allI impI)
    fix j assume j: "j < Suc n"
    show "result_offset + i + j < length (data result)
                \<and> row_string cfg bm segment dict_end (start + i + j)
                    = Some (data r ! (result_offset + i + j))"
    proof (cases j)
      case 0
      then show ?thesis using row0 v lt by simp
    next
      case (Suc j')
      then have "j' < n" using j by simp
      with rows have "result_offset + (i + 1) + j' < length (data r2)
                \<and> row_string cfg bm segment dict_end (start + (i + 1) + j')
                    = Some (data r ! (result_offset + (i + 1) + j'))" by blast
      then show ?thesis using Suc d2 by (simp add: add.assoc)
    qed
  qed
  moreover have "\<forall>k < result_offset + i. data r ! k = data result ! k"
    using low d2 by simp
  moreover have "length (data r) = length (data result)" using len d2 by simp
  ultimately show ?case by blast
qed

lemma select_loop_Some:
  assumes "\<forall>j<n. i + j < length sel
              \<and> row_string cfg bm segment dict_end (start + sel ! (i + j)) = Some (vs ! j)"
    and "length vs = n"
    and "i + n \<le> length (data result)"
  shows "\<exists>r. select_loop cfg bm segment dict_end start sel i n result = Some r
           \<and> data r = take i (data result) @ vs @ drop (i + n) (data result)"
  using assms
proof (induction n arbitrary: i result vs)
  case 0
  then show ?case by simp
next
  case (Suc n)
  from Suc.prems(2) obtain v vs' where vs: "vs = v # vs'" and len: "length vs' = n"
    by (cases vs) auto
  from Suc.prems(1) have isel: "i < length sel"
    and "row_string cfg bm segment dict_end (start + sel ! i) = Some v"
    using vs by force+
  then obtain cur prev a b where cur: "base_data segment (buffer segment) (start + sel ! i) = Some cur"
    and prev: "offset_before segment (start + sel ! i) = Some prev"
    and a: "std_abs cur = Some a" and b: "std_abs prev = Some b"
    and f: "fetched_string cfg bm segment dict_end cur (UnsafeNumericCast_uint32 (a - b)) = Some v"
    by (auto elim: row_string_SomeD)
  from FetchStringFromDict_fetched [OF f, of result] obtain r1 where
    r1: "FetchStringFromDict cfg bm segment dict_end result (buffer segment) cur
           (UnsafeNumericCast_uint32 (a - b)) = Some (v, r1)"
    and d1: "data r1 = data result" by blast
  have lt: "i < length (data r1)" using Suc.prems(3) d1 by simp
  from set_result_data_Some [OF lt, of v] obtain r2 where
    r2: "set_result_data r1 i v = Some r2"
    and d2: "data r2 = (data result)[i := v]" using d1 by auto
  have rows: "\<forall>j<n. (i + 1) + j < length sel
              \<and> row_string cfg bm segment dict_end (start + sel ! ((i + 1) + j)) = Some (vs' ! j)"
  proof (intro allI impI)
    fix j assume "j < n"
    then have "i + Suc j < length sel
              \<and> row_string cfg bm segment dict_end (start + sel ! (i + Suc j)) = Some (vs ! Suc j)"
      using Suc.prems(1) by blast
    then show "(i + 1) + j < length sel
              \<and> row_string cfg bm segment dict_end (start + sel ! ((i + 1) + j)) = Some (vs' ! j)"
      using vs by simp
  qed
  have room: "(i + 1) + n \<le> length (data r2)"
    using Suc.prems(3) d2 by simp
  from Suc.IH [OF rows len room] obtain r where
    r: "select_loop cfg bm segment dict_end start sel (i + 1) n r2 = Some r"
    and dr: "data r = take (i + 1) (data r2) @ vs' @ drop ((i + 1) + n) (data r2)" by blast
  have prev': "(if 0 < start + sel ! i then base_data segment (buffer segment) (start + sel ! i - 1)
                else Some 0) = Some prev"
    using prev by (simp add: offset_before_def)
  have step: "select_loop cfg bm segment dict_end start sel i (Suc n) result = Some r"
    using isel cur a b r1 r2 r prev' by (simp add: Let_def del: One_nat_def)
  have t: "take (i + 1) (data r2) = take i (data result) @ [v]"
    using Suc.prems(3) d2 by (simp add: take_Suc_conv_app_nth)
  have d: "drop ((i + 1) + n) (data r2) = drop (i + Suc n) (data result)"
    using d2 by simp
  show ?case using step dr t d vs by simp
qed

lemma to_signed_32_range: "- (2 ^ 31) \<le> to_signed 32 u \<and> to_signed 32 u < 2 ^ 31"
proof -
  have "u mod 2 ^ 32 < 2 ^ 32" by simp
  then show ?thesis unfolding to_signed_def
    by (auto simp: not_less)
qed

lemma Load_int32_range:
  "Load_int32 mem p = Some x \<Longrightarrow> - (2 ^ 31) \<le> x \<and> x < 2 ^ 31"
  using to_signed_32_range by (auto simp: Load_int32_def)

lemma std_abs_Some: "std_abs x = Some a \<Longrightarrow> a = \<bar>x\<bar> \<and> x \<noteq> - (2 ^ 31)"
  by (auto simp: std_abs_def split: if_splits)

lemma offset_before_range:
  "offset_before segment index = Some x \<Longrightarrow> - (2 ^ 31) \<le> x \<and> x < 2 ^ 31"
  using Load_int32_range by (auto simp: offset_before_def base_data_def split: if_splits)

lemma casts_agree:
  assumes "0 \<le> x" and "x < 2 ^ 32"
  shows "NumericCast_uint32 x = Some (UnsafeNumericCast_uint32 x)"
  using assms by (simp add: NumericCast_uint32_def UnsafeNumericCast_uint32_def to_unsigned_def)

lemma StringFetchRow_Some:
  assumes de: "GetDictionaryEnd segment (buffer segment) = Some dict_end"
    and row: "row_string cfg bm segment dict_end row_id = Some v"
    and mono: "\<And>cur prev. base_data segment (buffer segment) row_id = Some cur \<Longrightarrow>
                 offset_before segment row_id = Some prev \<Longrightarrow> \<bar>prev\<bar> \<le> \<bar>cur\<bar>"
    and idx: "result_idx < length (data result)"
  shows "\<exists>r. StringFetchRow cfg bm segment row_id result result_idx = Some r
           \<and> data r = (data result)[result_idx := v]"
proof -
  from row obtain cur prev a b where cur: "base_data segment (buffer segment) row_id = Some cur"
    and prev: "offset_before segment row_id = Some prev"
    and a: "std_abs cur = Some a" and b: "std_abs prev = Some b"
    and f: "fetched_string cfg bm segment dict_end cur (UnsafeNumericCast_uint32 (a - b)) = Some v"
    by (rule row_string_SomeD)
  have ab: "a = \<bar>cur\<bar>" "b = \<bar>prev\<bar>" using a b std_abs_Some by auto
  have "\<bar>prev\<bar> \<le> \<bar>cur\<bar>" using mono cur prev by blast
  moreover have "- (2 ^ 31) \<le> cur \<and> cur < 2 ^ 31"
    using cur Load_int32_range by (auto simp: base_data_def)
  ultimately have rng: "0 \<le> a - b" "a - b < 2 ^ 32" using ab by auto
  then have nc: "NumericCast_uint32 (a - b) = Some (UnsafeNumericCast_uint32 (a - b))"
    by (rule casts_agree)
  have len: "(if row_id = 0 then std_abs cur \<bind> NumericCast_uint32
              else base_data segment (buffer segment) (row_id - 1) \<bind>
                   (\<lambda>previous. std_abs cur \<bind> (\<lambda>a. std_abs previous \<bind> (\<lambda>b. NumericCast_uint32 (a - b)))))
             = Some (UnsafeNumericCast_uint32 (a - b))"
  proof (cases "row_id = 0")
    case True
    then have "prev = 0" using prev by (simp add: offset_before_def)
    then have "b = 0" using ab by simp
    then show ?thesis using True a nc by simp
  next
    case False
    then have "base_data segment (buffer segment) (row_id - 1) = Some prev"
      using prev by (simp add: offset_before_def)
    then show ?thesis using False a b nc by simp
  qed
  from FetchStringFromDict_fetched [OF f, of result] obtain r1 where
    r1: "FetchStringFromDict cfg bm segment dict_end result (buffer segment) cur
           (UnsafeNumericCast_uint32 (a - b)) = Some (v, r1)"
    and d1: "data r1 = data result" by blast
  have lt: "result_idx < length (data r1)" using idx d1 by simp
  from set_result_data_Some [OF lt, of v] obtain r2 where
    r2: "set_result_data r1 result_idx v = Some r2"
    and d2: "data r2 = (data result)[result_idx := v]" using d1 by auto
  have "StringFetchRow cfg bm segment row_id result result_idx = Some r2"
    unfolding StringFetchRow_def using de cur len r1 r2 by simp
  with d2 show ?thesis by blast
qed

lemma StringScan_rows:
  assumes "StringScan cfg bm segment 0 n result0 = Some scanned"
  shows "\<exists>dict_end. GetDictionaryEnd segment (buffer segment) = Some dict_end
           \<and> (\<forall>j<n. j < length (data scanned)
                  \<and> row_string cfg bm segment dict_end j = Some (data scanned ! j))"
proof -
  from assms obtain dict_end where de: "GetDictionaryEnd segment (buffer segment) = Some dict_end"
    and l: "scan_loop cfg bm segment dict_end 0 0 0 n 0 result0 = Some scanned"
    by (auto simp: StringScan_def StringScanPartial_def split: Option.bind_splits)
  have "offset_before segment (0 + 0) = Some 0" by (simp add: offset_before_def)
  from scan_loop_rows [OF l this] de show ?thesis by auto
qed


section \<open>The example segment\<close>

lemma small_segment_offsets:
  "base_data small_segment (buffer small_segment) 0 = Some 1"
  "base_data small_segment (buffer small_segment) 1 = Some 3"
  by code_simp+

lemma small_segment_scan:
  "StringScan example_config example_bm small_segment 0 2 (example_vector 2)
     = Some \<lparr>data = [[97], [98, 98]], auxiliary = []\<rparr>"
  by code_simp


section \<open>Lemmas about the in-memory overflow store\<close>

lemma UnsafeNumericCast_uint32_id:
  "n < 2 ^ 32 \<Longrightarrow> UnsafeNumericCast_uint32 (int n) = n"
  by (simp add: UnsafeNumericCast_uint32_def to_unsigned_def nat_mod_distrib nat_power_eq)

lemma UnsafeNumericCast_int32_id:
  "n < 2 ^ 31 \<Longrightarrow> UnsafeNumericCast_int32 (int n) = int n"
  unfolding UnsafeNumericCast_int32_def
  by (rule to_signed_to_unsigned) auto

lemma write_prefixed:
  assumes "off + 4 + length v \<le> length buf" and "length v < 2 ^ 32"
  shows "\<exists>h1 h2. Store_uint32 (length v) buf off = Some h1 \<and> memcpy h1 (off + 4) v = Some h2
           \<and> length h2 = length buf
           \<and> Load_uint32 h2 off = Some (length v)
           \<and> memread h2 (off + 4) (length v) = Some v
           \<and> (\<forall>p n. p + n \<le> off \<or> off + 4 + length v \<le> p \<longrightarrow> memread h2 p n = memread buf p n)"
proof -
  from assms(1) obtain h1 where h1: "Store_uint32 (length v) buf off = Some h1"
    using Store_uint32_Some [of off buf "length v"] by auto
  have l1: "length h1 = length buf" using h1 by (rule Store_uint32_length)
  with assms(1) obtain h2 where h2: "memcpy h1 (off + 4) v = Some h2"
    using memcpy_Some [of "off + 4" v h1] by auto
  have l2: "length h2 = length buf" using h2 l1 memcpy_length by fastforce
  have "memread h2 off 4 = memread h1 off 4"
    by (rule memread_memcpy_other [OF h2]) simp
  then have "Load_uint32 h2 off = Load_uint32 h1 off" by (rule Load_uint32_cong)
  with h1 assms(2) have ld: "Load_uint32 h2 off = Some (length v)"
    by (simp add: Load_uint32_Store_uint32)
  have rd: "memread h2 (off + 4) (length v) = Some v"
    using h2 by (rule memread_memcpy_same)
  have fr: "memread h2 p n = memread buf p n" if "p + n \<le> off \<or> off + 4 + length v \<le> p" for p n
  proof -
    have "memread h2 p n = memread h1 p n"
      using that by (intro memread_memcpy_other [OF h2]) auto
    also have "\<dots> = memread buf p n"
      using that by (intro Store_uint32_other [OF h1]) auto
    finally show ?thesis .
  qed
  from h1 h2 l2 ld rd fr show ?thesis by blast
qed

lemma WriteStringMemory_new_block:
  assumes len: "length v + 4 < 2 ^ 32"
    and fresh: "case head (segment_state segment) of [] \<Rightarrow> True
                | h # _ \<Rightarrow> sb_size h \<le> sb_offset h + (length v + 4)"
  shows "\<exists>buf. WriteStringMemory cfg bm segment v =
           Some (bm\<lparr>blocks := (blocks bm)(temporary_id bm \<mapsto> buf), temporary_id := temporary_id bm + 1\<rparr>,
                 segment\<lparr>segment_state := (segment_state segment)
                   \<lparr>head := \<lparr>sb_block = temporary_id bm, sb_offset = length v + 4,
                               sb_size = max (length v + 4) (block_size cfg)\<rparr>
                             # head (segment_state segment),
                    overflow_blocks :=
                      (if overflow_blocks (segment_state segment) (temporary_id bm) = None
                       then (overflow_blocks (segment_state segment))(temporary_id bm \<mapsto> temporary_id bm)
                       else overflow_blocks (segment_state segment))\<rparr>\<rparr>,
                 temporary_id bm, 0)
         \<and> length buf = max (length v + 4) (block_size cfg)
         \<and> Load_uint32 buf 0 = Some (length v)
         \<and> memread buf 4 (length v) = Some v"
proof -
  let ?total = "length v + 4"
  let ?alloc = "max ?total (block_size cfg)"
  have t: "UnsafeNumericCast_uint32 (int (length v + 4)) = ?total"
    using len by (rule UnsafeNumericCast_uint32_id)
  have lv: "UnsafeNumericCast_uint32 (int (length v)) = length v"
    using len by (intro UnsafeNumericCast_uint32_id) simp
  have z: "UnsafeNumericCast_int32 (int 0) = 0"
    using UnsafeNumericCast_int32_id [of 0] by simp
  have "0 + 4 + length v \<le> length (replicate ?alloc (0::byte))" by simp
  moreover have "length v < 2 ^ 32" using len by simp
  ultimately obtain h1 h2 where h1: "Store_uint32 (length v) (replicate ?alloc 0) 0 = Some h1"
    and h2: "memcpy h1 (0 + 4) v = Some h2"
    and l2: "length h2 = length (replicate ?alloc (0::byte))"
    and ld: "Load_uint32 h2 0 = Some (length v)"
    and rd: "memread h2 (0 + 4) (length v) = Some v"
    using write_prefixed [of 0 v "replicate ?alloc 0"] by blast
  have fr: "(case head (segment_state segment) of [] \<Rightarrow> True
                | h # _ \<Rightarrow> sb_size h \<le> sb_offset h + ?total) = True"
    using fresh by simp
  have "WriteStringMemory cfg bm segment v =
           Some (bm\<lparr>blocks := (blocks bm)(temporary_id bm \<mapsto> h2), temporary_id := temporary_id bm + 1\<rparr>,
                 segment\<lparr>segment_state := (segment_state segment)
                   \<lparr>head := \<lparr>sb_block = temporary_id bm, sb_offset = length v + 4,
                               sb_size = max (length v + 4) (block_size cfg)\<rparr>
                             # head (segment_state segment),
                    overflow_blocks :=
                      (if overflow_blocks (segment_state segment) (temporary_id bm) = None
                       then (overflow_blocks (segment_state segment))(temporary_id bm \<mapsto> temporary_id bm)
                       else overflow_blocks (segment_state segment))\<rparr>\<rparr>,
                 temporary_id bm, 0)"
    unfolding WriteStringMemory_def t lv Let_def fr Allocate_def
    using h1 h2 z by simp
  with l2 ld rd show ?thesis by auto
qed

lemma WriteStringMemory_in_place:
  assumes len: "length v + 4 < 2 ^ 32"
    and hd: "head (segment_state segment) = h # rest"
    and fits: "sb_offset h + (length v + 4) < sb_size h"
    and buf: "blocks bm (sb_block h) = Some buf0" and sz: "sb_size h \<le> length buf0"
    and off: "sb_offset h < 2 ^ 31"
  shows "\<exists>buf. WriteStringMemory cfg bm segment v =
           Some (bm\<lparr>blocks := (blocks bm)(sb_block h \<mapsto> buf)\<rparr>,
                 segment\<lparr>segment_state := (segment_state segment)
                   \<lparr>head := h\<lparr>sb_offset := sb_offset h + (length v + 4)\<rparr> # rest\<rparr>\<rparr>,
                 sb_block h, int (sb_offset h))
         \<and> length buf = length buf0
         \<and> Load_uint32 buf (sb_offset h) = Some (length v)
         \<and> memread buf (sb_offset h + 4) (length v) = Some v
         \<and> (\<forall>p n. p + n \<le> sb_offset h \<longrightarrow> memread buf p n = memread buf0 p n)"
proof -
  let ?total = "length v + 4"
  have t: "UnsafeNumericCast_uint32 (int (length v + 4)) = ?total"
    using len by (rule UnsafeNumericCast_uint32_id)
  have lv: "UnsafeNumericCast_uint32 (int (length v)) = length v"
    using len by (intro UnsafeNumericCast_uint32_id) simp
  have z: "UnsafeNumericCast_int32 (int (sb_offset h)) = int (sb_offset h)"
    using off by (rule UnsafeNumericCast_int32_id)
  have "sb_offset h + 4 + length v \<le> length buf0" using fits sz by simp
  moreover have "length v < 2 ^ 32" using len by simp
  ultimately obtain h1 h2 where h1: "Store_uint32 (length v) buf0 (sb_offset h) = Some h1"
    and h2: "memcpy h1 (sb_offset h + 4) v = Some h2"
    and l2: "length h2 = length buf0"
    and ld: "Load_uint32 h2 (sb_offset h) = Some (length v)"
    and rd: "memread h2 (sb_offset h + 4) (length v) = Some v"
    and fr: "\<forall>p n. p + n \<le> sb_offset h \<or> sb_offset h + 4 + length v \<le> p \<longrightarrow>
               memread h2 p n = memread buf0 p n"
    using write_prefixed [of "sb_offset h" v buf0] by blast
  have nf: "\<not> sb_size h \<le> sb_offset h + ?total" using fits by simp
  have "WriteStringMemory cfg bm segment v =
           Some (bm\<lparr>blocks := (blocks bm)(sb_block h \<mapsto> h2)\<rparr>,
                 segment\<lparr>segment_state := (segment_state segment)
                   \<lparr>head := h\<lparr>sb_offset := sb_offset h + (length v + 4)\<rparr> # rest\<rparr>\<rparr>,
                 sb_block h, int (sb_offset h))"
    unfolding WriteStringMemory_def t lv Let_def
    using hd nf buf h1 h2 z by simp
  with l2 ld rd fr show ?thesis by auto
qed

lemma memory_string_at_read:
  assumes "memory_string_at cfg bm (segment_state segment) block offset v"
  shows "\<exists>result'. ReadOverflowString cfg bm segment result block offset = Some (v, result')"
proof -
  from assms obtain entry buf where m: "MAXIMUM_BLOCK cfg \<le> block" "0 \<le> offset"
    and e: "overflow_blocks (segment_state segment) block = Some entry"
    and b: "blocks bm entry = Some buf"
    and l: "Load_uint32 buf (nat offset) = Some (length v)"
    and r: "memread buf (nat offset + 4) (length v) = Some v"
    unfolding memory_string_at_def by blast
  have "ReadStringWithLength buf (nat offset) = Some v"
    using l r by (simp add: ReadStringWithLength_def)
  then show ?thesis using m e b by (simp add: ReadOverflowString_def)
qed

lemma WriteStringMemory_inv:
  assumes inv: "memory_inv cfg bm (segment_state segment)"
    and len: "length v + 4 < 2 ^ 31" and B: "block_size cfg < 2 ^ 31"
  shows "\<exists>bm' segment' block offset.
           WriteStringMemory cfg bm segment v = Some (bm', segment', block, offset)
         \<and> memory_inv cfg bm' (segment_state segment')
         \<and> memory_string_at cfg bm' (segment_state segment') block offset v
         \<and> (\<forall>b off u. memory_string_at cfg bm (segment_state segment) b off u \<longrightarrow>
                memory_string_at cfg bm' (segment_state segment') b off u)
         \<and> (\<forall>id. id < MAXIMUM_BLOCK cfg \<longrightarrow> blocks bm' id = blocks bm id)
         \<and> free_block_id bm' = free_block_id bm
         \<and> temporary_id bm \<le> temporary_id bm' \<and> temporary_id bm' \<le> temporary_id bm + 1
         \<and> overflow_writer (segment_state segment') = overflow_writer (segment_state segment)
         \<and> on_disk_blocks (segment_state segment') = on_disk_blocks (segment_state segment)
         \<and> segment' = segment\<lparr>segment_state := segment_state segment'\<rparr>
         \<and> MAXIMUM_BLOCK cfg \<le> block \<and> block \<le> temporary_id bm
         \<and> 0 \<le> offset \<and> offset < 2 ^ 31"
proof -
  let ?st = "segment_state segment"
  have len32: "length v + 4 < 2 ^ 32" using len by simp
  from inv have tid: "MAXIMUM_BLOCK cfg \<le> temporary_id bm"
    and dom: "\<forall>b. b \<ge> temporary_id bm \<longrightarrow> overflow_blocks ?st b = None"
    and hd: "\<forall>h rest. head ?st = h # rest \<longrightarrow>
            MAXIMUM_BLOCK cfg \<le> sb_block h \<and> sb_block h < temporary_id bm
            \<and> sb_offset h \<le> sb_size h \<and> sb_size h < 2 ^ 31
            \<and> overflow_blocks ?st (sb_block h) = Some (sb_block h)
            \<and> (\<exists>buf. blocks bm (sb_block h) = Some buf \<and> sb_size h \<le> length buf)"
    unfolding memory_inv_def by blast+
  show ?thesis
  proof (cases "case head ?st of [] \<Rightarrow> False | h # _ \<Rightarrow> sb_offset h + (length v + 4) < sb_size h")
    case True
    then obtain h rest where hd_eq: "head ?st = h # rest"
      and fits: "sb_offset h + (length v + 4) < sb_size h"
      by (auto split: list.splits)
    from hd hd_eq obtain buf0 where hb: "MAXIMUM_BLOCK cfg \<le> sb_block h" "sb_block h < temporary_id bm"
      and sz: "sb_size h < 2 ^ 31"
      and reg: "overflow_blocks ?st (sb_block h) = Some (sb_block h)"
      and buf0: "blocks bm (sb_block h) = Some buf0" and szb: "sb_size h \<le> length buf0" by blast
    have off: "sb_offset h < 2 ^ 31" using fits sz by simp
    from WriteStringMemory_in_place [OF len32 hd_eq fits buf0 szb off, of cfg] obtain buf where
      w: "WriteStringMemory cfg bm segment v =
           Some (bm\<lparr>blocks := (blocks bm)(sb_block h \<mapsto> buf)\<rparr>,
                 segment\<lparr>segment_state := ?st
                   \<lparr>head := h\<lparr>sb_offset := sb_offset h + (length v + 4)\<rparr> # rest\<rparr>\<rparr>,
                 sb_block h, int (sb_offset h))"
      and lb: "length buf = length buf0"
      and ld: "Load_uint32 buf (sb_offset h) = Some (length v)"
      and rd: "memread buf (sb_offset h + 4) (length v) = Some v"
      and fr: "\<forall>p n. p + n \<le> sb_offset h \<longrightarrow> memread buf p n = memread buf0 p n" by blast
    let ?bm' = "bm\<lparr>blocks := (blocks bm)(sb_block h \<mapsto> buf)\<rparr>"
    let ?st' = "?st\<lparr>head := h\<lparr>sb_offset := sb_offset h + (length v + 4)\<rparr> # rest\<rparr>"
    have inv': "memory_inv cfg ?bm' ?st'"
      unfolding memory_inv_def using tid dom hb sz fits szb lb reg by simp
    have new: "memory_string_at cfg ?bm' ?st' (sb_block h) (int (sb_offset h)) v"
      unfolding memory_string_at_def using hb ld rd reg by simp
    have old: "memory_string_at cfg ?bm' ?st' b off u"
      if m: "memory_string_at cfg bm ?st b off u" for b off u
    proof -
      from m obtain entry bf where m1: "MAXIMUM_BLOCK cfg \<le> b" "0 \<le> off"
        and e: "overflow_blocks ?st b = Some entry"
        and er: "MAXIMUM_BLOCK cfg \<le> entry" "entry < temporary_id bm"
        and b: "blocks bm entry = Some bf"
        and l: "Load_uint32 bf (nat off) = Some (length u)"
        and r: "memread bf (nat off + 4) (length u) = Some u"
        and lim: "\<forall>h' rest'. head ?st = h' # rest' \<longrightarrow> sb_block h' = entry \<longrightarrow>
                   nat off + 4 + length u \<le> sb_offset h'"
        unfolding memory_string_at_def by blast
      show ?thesis
      proof (cases "entry = sb_block h")
        case False
        then show ?thesis unfolding memory_string_at_def using m1 e er b l r by simp
      next
        case True
        then have bf: "bf = buf0" using b buf0 by simp
        from lim hd_eq True have le: "nat off + 4 + length u \<le> sb_offset h" by blast
        have "memread buf (nat off) 4 = memread buf0 (nat off) 4" using fr le by simp
        then have l': "Load_uint32 buf (nat off) = Some (length u)"
          using l bf by (simp add: Load_uint32_def)
        have r': "memread buf (nat off + 4) (length u) = Some u"
          using fr le r bf by (simp add: add.assoc)
        show ?thesis unfolding memory_string_at_def using m1 e er True l' r' le by simp
      qed
    qed
    have fr_disk: "\<forall>id. id < MAXIMUM_BLOCK cfg \<longrightarrow> blocks ?bm' id = blocks bm id"
      using hb by simp
    show ?thesis
      apply (rule exI [of _ ?bm'])
      apply (rule exI [of _ "segment\<lparr>segment_state := ?st'\<rparr>"])
      apply (rule exI [of _ "sb_block h"])
      apply (rule exI [of _ "int (sb_offset h)"])
      using w inv' new old fr_disk hb off by simp
  next
    case False
    then have fresh: "case head ?st of [] \<Rightarrow> True
                | h # _ \<Rightarrow> sb_size h \<le> sb_offset h + (length v + 4)"
      by (auto split: list.splits)
    let ?tid = "temporary_id bm"
    let ?new = "\<lparr>sb_block = ?tid, sb_offset = length v + 4,
                  sb_size = max (length v + 4) (block_size cfg)\<rparr>"
    have none: "overflow_blocks ?st ?tid = None" using dom by simp
    from WriteStringMemory_new_block [OF len32 fresh, of cfg bm] none obtain buf where
      w: "WriteStringMemory cfg bm segment v =
           Some (bm\<lparr>blocks := (blocks bm)(?tid \<mapsto> buf), temporary_id := ?tid + 1\<rparr>,
                 segment\<lparr>segment_state := ?st
                   \<lparr>head := ?new # head ?st,
                    overflow_blocks := (overflow_blocks ?st)(?tid \<mapsto> ?tid)\<rparr>\<rparr>,
                 ?tid, 0)"
      and lb: "length buf = max (length v + 4) (block_size cfg)"
      and ld: "Load_uint32 buf 0 = Some (length v)"
      and rd: "memread buf 4 (length v) = Some v" by auto
    let ?bm' = "bm\<lparr>blocks := (blocks bm)(?tid \<mapsto> buf), temporary_id := ?tid + 1\<rparr>"
    let ?st' = "?st\<lparr>head := ?new # head ?st,
                    overflow_blocks := (overflow_blocks ?st)(?tid \<mapsto> ?tid)\<rparr>"
    have inv': "memory_inv cfg ?bm' ?st'"
      unfolding memory_inv_def using tid dom len B lb by simp
    have new: "memory_string_at cfg ?bm' ?st' ?tid 0 v"
      unfolding memory_string_at_def using tid ld rd by simp
    have old: "memory_string_at cfg ?bm' ?st' b off u"
      if m: "memory_string_at cfg bm ?st b off u" for b off u
    proof -
      from m obtain entry bf where m1: "MAXIMUM_BLOCK cfg \<le> b" "0 \<le> off"
        and e: "overflow_blocks ?st b = Some entry"
        and er: "MAXIMUM_BLOCK cfg \<le> entry" "entry < temporary_id bm"
        and b: "blocks bm entry = Some bf"
        and l: "Load_uint32 bf (nat off) = Some (length u)"
        and r: "memread bf (nat off + 4) (length u) = Some u"
        unfolding memory_string_at_def by blast
      have "b \<noteq> ?tid" using e none by auto
      then show ?thesis unfolding memory_string_at_def using m1 e er b l r by simp
    qed
    have fr_disk: "\<forall>id. id < MAXIMUM_BLOCK cfg \<longrightarrow> blocks ?bm' id = blocks bm id"
      using tid by simp
    show ?thesis
      apply (rule exI [of _ ?bm'])
      apply (rule exI [of _ "segment\<lparr>segment_state := ?st'\<rparr>"])
      apply (rule exI [of _ ?tid])
      apply (rule exI [of _ 0])
      using w inv' new old fr_disk tid by simp
  qed
qed

text \<open>
  The two branches of \<^verbatim>\<open>WriteStringMemory\<close> together, as the test of the code selects
  them: the result, the bytes written and the new head.
\<close>

lemma WriteStringMemory_result:
  assumes len: "length v + 4 < 2 ^ 32"
    and wf: "\<forall>h rest. head (segment_state segment) = h # rest \<longrightarrow>
               sb_offset h < 2 ^ 31
               \<and> (\<exists>buf0. blocks bm (sb_block h) = Some buf0 \<and> sb_size h \<le> length buf0)"
  shows "\<exists>bm' segment' block offset buf.
           WriteStringMemory cfg bm segment v = Some (bm', segment', block, offset)
         \<and> blocks bm' block = Some buf
         \<and> 0 \<le> offset
         \<and> Load_uint32 buf (nat offset) = Some (length v)
         \<and> memread buf (nat offset + 4) (length v) = Some v
         \<and> (if (case head (segment_state segment) of [] \<Rightarrow> False
                  | h # _ \<Rightarrow> sb_offset h + (length v + 4) < sb_size h)
             then block = sb_block (hd (head (segment_state segment)))
                \<and> offset = int (sb_offset (hd (head (segment_state segment))))
                \<and> head (segment_state segment')
                    = (hd (head (segment_state segment)))
                        \<lparr>sb_offset := sb_offset (hd (head (segment_state segment))) + (length v + 4)\<rparr>
                      # tl (head (segment_state segment))
                \<and> temporary_id bm' = temporary_id bm
             else block = temporary_id bm
                \<and> offset = 0
                \<and> length buf = max (length v + 4) (block_size cfg)
                \<and> head (segment_state segment')
                    = \<lparr>sb_block = temporary_id bm, sb_offset = length v + 4,
                       sb_size = max (length v + 4) (block_size cfg)\<rparr>
                      # head (segment_state segment)
                \<and> temporary_id bm' = temporary_id bm + 1)"
proof (cases "case head (segment_state segment) of [] \<Rightarrow> False
                  | h # _ \<Rightarrow> sb_offset h + (length v + 4) < sb_size h")
  case True
  then obtain h rest where hd: "head (segment_state segment) = h # rest"
    and fits: "sb_offset h + (length v + 4) < sb_size h"
    by (auto split: list.splits)
  from wf hd obtain buf0 where off: "sb_offset h < 2 ^ 31"
    and buf0: "blocks bm (sb_block h) = Some buf0" and sz: "sb_size h \<le> length buf0" by blast
  from WriteStringMemory_in_place [OF len hd fits buf0 sz off, of cfg] obtain buf where
    w: "WriteStringMemory cfg bm segment v =
           Some (bm\<lparr>blocks := (blocks bm)(sb_block h \<mapsto> buf)\<rparr>,
                 segment\<lparr>segment_state := (segment_state segment)
                   \<lparr>head := h\<lparr>sb_offset := sb_offset h + (length v + 4)\<rparr> # rest\<rparr>\<rparr>,
                 sb_block h, int (sb_offset h))"
    and ld: "Load_uint32 buf (sb_offset h) = Some (length v)"
    and rd: "memread buf (sb_offset h + 4) (length v) = Some v" by blast
  show ?thesis
    using True hd w ld rd by simp
next
  case False
  then have fresh: "case head (segment_state segment) of [] \<Rightarrow> True
                | h # _ \<Rightarrow> sb_size h \<le> sb_offset h + (length v + 4)"
    by (auto split: list.splits)
  from WriteStringMemory_new_block [OF len fresh, of cfg bm] obtain buf where
    w: "WriteStringMemory cfg bm segment v =
           Some (bm\<lparr>blocks := (blocks bm)(temporary_id bm \<mapsto> buf), temporary_id := temporary_id bm + 1\<rparr>,
                 segment\<lparr>segment_state := (segment_state segment)
                   \<lparr>head := \<lparr>sb_block = temporary_id bm, sb_offset = length v + 4,
                               sb_size = max (length v + 4) (block_size cfg)\<rparr>
                             # head (segment_state segment),
                    overflow_blocks :=
                      (if overflow_blocks (segment_state segment) (temporary_id bm) = None
                       then (overflow_blocks (segment_state segment))(temporary_id bm \<mapsto> temporary_id bm)
                       else overflow_blocks (segment_state segment))\<rparr>\<rparr>,
                 temporary_id bm, 0)"
    and l: "length buf = max (length v + 4) (block_size cfg)"
    and ld: "Load_uint32 buf 0 = Some (length v)"
    and rd: "memread buf 4 (length v) = Some v" by blast
  show ?thesis
    using False w l ld rd by simp
qed

section \<open>Lemmas about the durable read path\<close>






lemma reader_room:
  assumes "offset + sizeof_block_id_t \<le> block_size cfg" and "block_size cfg < 2 ^ 31"
  shows "nat ((int (block_size cfg) - int sizeof_block_id_t - int offset) mod 2 ^ 64)
           = block_size cfg - sizeof_block_id_t - offset"
proof -
  let ?room = "block_size cfg - sizeof_block_id_t - offset"
  have "int (block_size cfg) - int sizeof_block_id_t - int offset = int ?room"
    using assms(1) by simp
  moreover have "?room < 2 ^ 64"
  proof -
    have "?room \<le> block_size cfg" by simp
    moreover have "(2::nat) ^ 31 < 2 ^ 64" by simp
    ultimately show ?thesis using assms(2) by linarith
  qed
  then have "int ?room < 2 ^ 64" by simp
  ultimately show ?thesis by simp
qed

lemma read_overflow_loop_zero: "read_overflow_loop cfg bm handle offset 0 = Some []"
  by (subst read_overflow_loop.simps) simp

lemma read_overflow_loop_last:
  assumes "0 < remaining" and "remaining \<le> block_size cfg - sizeof_block_id_t - offset"
    and "offset + sizeof_block_id_t \<le> block_size cfg" and "block_size cfg < 2 ^ 31"
    and "memread handle offset remaining = Some piece"
  shows "read_overflow_loop cfg bm handle offset remaining = Some piece"
proof -
  have tw: "min remaining
              (nat ((int (block_size cfg) - int sizeof_block_id_t - int offset) mod 2 ^ 64))
            = remaining"
    using assms(2) by (simp only: reader_room [OF assms(3,4)] min_absorb1)
  show ?thesis
    apply (subst read_overflow_loop.simps)
    apply (simp only: Let_def tw)
    apply (simp add: assms(1,5))
    done
qed

lemma read_overflow_loop_next:
  assumes "block_size cfg - sizeof_block_id_t - offset < remaining"
    and "offset + sizeof_block_id_t \<le> block_size cfg" and "block_size cfg < 2 ^ 31"
    and "memread handle offset (block_size cfg - sizeof_block_id_t - offset) = Some piece"
    and "Load_block_id handle (block_size cfg - sizeof_block_id_t) = Some next_block"
    and "blocks bm next_block = Some handle'"
    and "read_overflow_loop cfg bm handle' 0
           (remaining - (block_size cfg - sizeof_block_id_t - offset)) = Some rest"
  shows "read_overflow_loop cfg bm handle offset remaining = Some (piece @ rest)"
proof -
  let ?room = "block_size cfg - sizeof_block_id_t - offset"
  have tw: "min remaining
              (nat ((int (block_size cfg) - int sizeof_block_id_t - int offset) mod 2 ^ 64))
            = ?room"
    using assms(1) by (simp only: reader_room [OF assms(2,3)] min_absorb2 less_imp_le)
  have ptr: "offset + ?room = block_size cfg - sizeof_block_id_t"
    using assms(2) by simp
  have pos: "0 < remaining" "0 < remaining - ?room" using assms(1) by auto
  show ?thesis
    apply (subst read_overflow_loop.simps)
    apply (simp only: Let_def tw ptr)
    apply (simp only: pos if_True assms(4-7) Option.bind.simps)
    done
qed

lemma chain_at_block:
  assumes "chain_at cfg bm wb wo block offset str"
  shows "\<exists>buf. blocks bm block = Some buf \<and> length buf = block_size cfg
           \<and> INVALID_BLOCK cfg < block \<and> block < free_block_id bm
           \<and> offset + sizeof_block_id_t \<le> block_size cfg"
  using assms
  by (subst (asm) chain_at.simps) (auto split: option.splits)

lemma chain_at_last:
  assumes "chain_at cfg bm wb wo block offset str" and "blocks bm block = Some buf"
    and "length str \<le> block_size cfg - sizeof_block_id_t - offset"
  shows "memread buf offset (length str) = Some str
       \<and> (wb = block \<longrightarrow> offset + length str \<le> wo)"
  using assms
  by (subst (asm) chain_at.simps) (simp del: diff_diff_left)

lemma chain_at_next:
  assumes "chain_at cfg bm wb wo block offset str" and "blocks bm block = Some buf"
    and "\<not> length str \<le> block_size cfg - sizeof_block_id_t - offset"
  shows "offset + sizeof_block_id_t < block_size cfg \<and> wb \<noteq> block
       \<and> memread buf offset (block_size cfg - sizeof_block_id_t - offset)
           = Some (take (block_size cfg - sizeof_block_id_t - offset) str)
       \<and> (\<exists>next_block. Load_block_id buf (block_size cfg - sizeof_block_id_t) = Some next_block
             \<and> chain_at cfg bm wb wo next_block 0
                  (drop (block_size cfg - sizeof_block_id_t - offset) str))"
  using assms
  by (subst (asm) chain_at.simps) (auto simp del: diff_diff_left split: option.splits if_splits)

lemma chain_at_lastI:
  assumes "INVALID_BLOCK cfg < block" and "block < free_block_id bm"
    and "offset + sizeof_block_id_t \<le> block_size cfg"
    and "blocks bm block = Some buf" and "length buf = block_size cfg"
    and "length str \<le> block_size cfg - sizeof_block_id_t - offset"
    and "memread buf offset (length str) = Some str"
    and "wb = block \<longrightarrow> offset + length str \<le> wo"
  shows "chain_at cfg bm wb wo block offset str"
  by (subst chain_at.simps) (simp add: assms del: diff_diff_left)

lemma chain_at_nextI:
  assumes "INVALID_BLOCK cfg < block" and "block < free_block_id bm"
    and "offset + sizeof_block_id_t < block_size cfg"
    and "blocks bm block = Some buf" and "length buf = block_size cfg"
    and "\<not> length str \<le> block_size cfg - sizeof_block_id_t - offset"
    and "wb \<noteq> block"
    and "memread buf offset (block_size cfg - sizeof_block_id_t - offset)
           = Some (take (block_size cfg - sizeof_block_id_t - offset) str)"
    and "Load_block_id buf (block_size cfg - sizeof_block_id_t) = Some next_block"
    and "chain_at cfg bm wb wo next_block 0 (drop (block_size cfg - sizeof_block_id_t - offset) str)"
  shows "chain_at cfg bm wb wo block offset str"
  by (subst chain_at.simps) (simp add: assms less_imp_le del: diff_diff_left)

lemma chain_at_read:
  assumes "chain_at cfg bm wb wo block offset str" and "blocks bm block = Some buf"
    and B: "block_size cfg < 2 ^ 31"
  shows "read_overflow_loop cfg bm buf offset (length str) = Some str"
  using assms
proof (induction cfg bm wb wo block offset str arbitrary: buf rule: chain_at.induct)
  case (1 cfg bm wb wo block offset str)
  note c = "1.prems"(1) and buf = "1.prems"(2) and B = "1.prems"(3)
  let ?room = "block_size cfg - sizeof_block_id_t - offset"
  from chain_at_block [OF c] buf have off: "offset + sizeof_block_id_t \<le> block_size cfg"
    by auto
  show ?case
  proof (cases "length str \<le> ?room")
    case True
    from chain_at_last [OF c buf True] have rd: "memread buf offset (length str) = Some str"
      by simp
    show ?thesis
    proof (cases "str = []")
      case True
      then show ?thesis by (simp add: read_overflow_loop_zero)
    next
      case False
      then have "0 < length str" by simp
      then show ?thesis using True off B rd by (rule read_overflow_loop_last)
    qed
  next
    case False
    from chain_at_next [OF c buf False] obtain next_block where
      lt: "offset + sizeof_block_id_t < block_size cfg"
      and rd: "memread buf offset ?room = Some (take ?room str)"
      and ld: "Load_block_id buf (block_size cfg - sizeof_block_id_t) = Some next_block"
      and rest: "chain_at cfg bm wb wo next_block 0 (drop ?room str)"
      by blast
    from chain_at_block [OF rest] obtain buf' where buf': "blocks bm next_block = Some buf'"
      by blast
    have "read_overflow_loop cfg bm buf' 0 (length (drop ?room str)) = Some (drop ?room str)"
      using "1.IH" [OF buf False lt ld rest buf' B] .
    then have IH: "read_overflow_loop cfg bm buf' 0 (length str - ?room) = Some (drop ?room str)"
      by (simp del: diff_diff_left)
    have lt': "?room < length str" using False by simp
    have "read_overflow_loop cfg bm buf offset (length str) = Some (take ?room str @ drop ?room str)"
      using lt' off B rd ld buf' IH by (rule read_overflow_loop_next)
    then show ?thesis by (simp del: diff_diff_left)
  qed
qed

lemma disk_string_at_read:
  assumes "disk_string_at cfg bm (segment_state segment) block offset v"
    and "block_size cfg < 2 ^ 31"
  shows "\<exists>result'. ReadOverflowString cfg bm segment result block offset = Some (v, result')"
proof -
  from assms(1) obtain buf where m: "block < MAXIMUM_BLOCK cfg" "0 \<le> offset"
    and b: "blocks bm block = Some buf"
    and l: "Load_uint32 buf (nat offset) = Some (length v)"
    and c: "chain_at cfg bm (writer_block cfg (segment_state segment))
              (writer_offset (segment_state segment)) block (nat offset + 4) v"
    unfolding disk_string_at_def by blast
  from chain_at_read [OF c b assms(2)]
  show ?thesis using m b l by (simp add: ReadOverflowString_def)
qed

lemma chain_at_frame:
  assumes "chain_at cfg bm wb wo block offset str"
    and "free_block_id bm \<le> free_block_id bm'"
    and "\<forall>id. id < free_block_id bm \<longrightarrow> id \<noteq> wb \<longrightarrow> blocks bm' id = blocks bm id"
    and "\<forall>buf. blocks bm wb = Some buf \<longrightarrow> wb < free_block_id bm \<longrightarrow>
                (\<exists>buf'. blocks bm' wb = Some buf' \<and> length buf' = length buf
                  \<and> (\<forall>p n. p + n \<le> wo \<longrightarrow> memread buf' p n = memread buf p n))"
    and "(wb' = wb \<and> wo \<le> wo') \<or> free_block_id bm \<le> wb'"
  shows "chain_at cfg bm' wb' wo' block offset str"
  using assms
proof (induction cfg bm wb wo block offset str rule: chain_at.induct)
  case (1 cfg bm wb wo block offset str)
  note c = "1.prems"(1) and free = "1.prems"(2) and same = "1.prems"(3)
    and cur = "1.prems"(4) and pos = "1.prems"(5)
  let ?room = "block_size cfg - sizeof_block_id_t - offset"
  from chain_at_block [OF c] obtain buf where rng: "INVALID_BLOCK cfg < block" "block < free_block_id bm"
    and off: "offset + sizeof_block_id_t \<le> block_size cfg"
    and buf: "blocks bm block = Some buf" and lb: "length buf = block_size cfg"
    by blast
  have rng': "block < free_block_id bm'" using rng free by simp
  show ?case
  proof (cases "length str \<le> ?room")
    case True
    from chain_at_last [OF c buf True] have rd: "memread buf offset (length str) = Some str"
      and lim: "wb = block \<longrightarrow> offset + length str \<le> wo"
      by simp_all
    have "\<exists>buf'. blocks bm' block = Some buf' \<and> length buf' = block_size cfg
             \<and> memread buf' offset (length str) = Some str"
    proof (cases "wb = block")
      case False
      then have "blocks bm' block = blocks bm block" using same rng by simp
      then show ?thesis using buf lb rd by simp
    next
      case True
      with cur buf rng obtain buf' where "blocks bm' block = Some buf'"
        "length buf' = length buf"
        "\<forall>p n. p + n \<le> wo \<longrightarrow> memread buf' p n = memread buf p n" by blast
      moreover have "offset + length str \<le> wo" using lim True by simp
      ultimately show ?thesis using lb rd by simp
    qed
    then obtain buf' where b': "blocks bm' block = Some buf'" "length buf' = block_size cfg"
      "memread buf' offset (length str) = Some str" by blast
    have lim': "wb' = block \<longrightarrow> offset + length str \<le> wo'"
      using pos lim rng by auto
    show ?thesis
      using rng(1) rng' off b'(1,2) True b'(3) lim' by (rule chain_at_lastI)
  next
    case False
    from chain_at_next [OF c buf False] obtain next_block where
      lt: "offset + sizeof_block_id_t < block_size cfg"
      and nb: "wb \<noteq> block"
      and rd: "memread buf offset ?room = Some (take ?room str)"
      and ld: "Load_block_id buf (block_size cfg - sizeof_block_id_t) = Some next_block"
      and rest: "chain_at cfg bm wb wo next_block 0 (drop ?room str)"
      by blast
    have b': "blocks bm' block = Some buf" using same rng nb buf by simp
    have nb': "wb' \<noteq> block" using pos nb rng by auto
    have IH: "chain_at cfg bm' wb' wo' next_block 0 (drop ?room str)"
      using "1.IH" [OF buf False lt ld rest free same cur pos] .
    show ?thesis
      using rng(1) rng' lt b' lb False nb' rd ld IH by (rule chain_at_nextI)
  qed
qed

section \<open>Lemmas about the durable writer\<close>

lemma write_overflow_payload_nil:
  "write_overflow_payload cfg bm state w [] = Some (bm, state, w)"
  by (subst write_overflow_payload.simps) simp

lemma write_overflow_payload_last:
  assumes "str \<noteq> []" and "w_offset w + sizeof_block_id_t < block_size cfg"
    and "length str \<le> block_size cfg - sizeof_block_id_t - w_offset w"
    and "blocks bm (w_block_id w) = Some handle"
    and "memcpy handle (w_offset w) str = Some handle'"
  shows "write_overflow_payload cfg bm state w str
           = Some (bm\<lparr>blocks := (blocks bm)(w_block_id w \<mapsto> handle')\<rparr>, state,
                   w\<lparr>w_offset := w_offset w + length str\<rparr>)"
proof -
  have m: "min (length str) (block_size cfg - sizeof_block_id_t - w_offset w) = length str"
    using assms(3) by (rule min_absorb1)
  have g: "\<not> block_size cfg \<le> w_offset w + sizeof_block_id_t" using assms(2) by simp
  show ?thesis
    apply (subst write_overflow_payload.simps)
    apply (simp only: Let_def m assms(1) g if_False)
    apply (simp add: assms(4,5))
    done
qed

lemma write_overflow_payload_next:
  assumes "str \<noteq> []" and "w_offset w + sizeof_block_id_t < block_size cfg"
    and "\<not> length str \<le> block_size cfg - sizeof_block_id_t - w_offset w"
    and "blocks bm (w_block_id w) = Some handle"
    and "memcpy handle (w_offset w) (take (block_size cfg - sizeof_block_id_t - w_offset w) str)
           = Some handle'"
    and "Store_block_id (free_block_id bm) handle' (block_size cfg - sizeof_block_id_t)
           = Some handle''"
    and "w_block_id w \<noteq> INVALID_BLOCK cfg"
  shows "write_overflow_payload cfg bm state w str
           = write_overflow_payload cfg
               (bm\<lparr>blocks := (blocks bm)(w_block_id w \<mapsto> handle'',
                                           free_block_id bm \<mapsto> replicate (block_size cfg) 0),
                   free_block_id := free_block_id bm + 1\<rparr>)
               (state\<lparr>on_disk_blocks := on_disk_blocks state @ [free_block_id bm]\<rparr>)
               \<lparr>w_block_id = free_block_id bm, w_offset = 0\<rparr>
               (drop (block_size cfg - sizeof_block_id_t - w_offset w) str)"
proof -
  let ?room = "block_size cfg - sizeof_block_id_t - w_offset w"
  have m: "min (length str) ?room = ?room"
    using assms(3) by (simp add: min_absorb2 del: diff_diff_left)
  have g: "\<not> block_size cfg \<le> w_offset w + sizeof_block_id_t" using assms(2) by simp
  have lt: "?room < length str" using assms(3) by simp
  have alloc: "AllocateNewBlock cfg (bm\<lparr>blocks := (blocks bm)(w_block_id w \<mapsto> handle')\<rparr>) state
                 (w\<lparr>w_offset := w_offset w + ?room\<rparr>)
        = Some (bm\<lparr>blocks := (blocks bm)(w_block_id w \<mapsto> handle'',
                                           free_block_id bm \<mapsto> replicate (block_size cfg) 0),
                   free_block_id := free_block_id bm + 1\<rparr>,
               state\<lparr>on_disk_blocks := on_disk_blocks state @ [free_block_id bm]\<rparr>,
               \<lparr>w_block_id = free_block_id bm, w_offset = 0\<rparr>)"
    using assms(6,7) by (simp add: AllocateNewBlock_def Let_def)
  show ?thesis
    apply (subst write_overflow_payload.simps)
    apply (simp only: Let_def m assms(1) g if_False)
    apply (simp only: assms(4,5) Option.bind.simps lt if_True alloc prod.case)
    done
qed

lemma write_overflow_payload_chain:
  assumes "INVALID_BLOCK cfg < w_block_id w" and "w_block_id w < free_block_id bm"
    and "blocks bm (w_block_id w) = Some buf" and "length buf = block_size cfg"
    and "w_offset w + sizeof_block_id_t \<le> block_size cfg"
    and "str \<noteq> [] \<longrightarrow> w_offset w + sizeof_block_id_t < block_size cfg"
    and "sizeof_block_id_t < block_size cfg"
    and "- (2 ^ 63) \<le> INVALID_BLOCK cfg" and "MAXIMUM_BLOCK cfg \<le> 2 ^ 63"
    and "free_block_id bm + int (length str) \<le> MAXIMUM_BLOCK cfg"
  shows "\<exists>bm' state' w' buf' cur'.
           write_overflow_payload cfg bm state w str = Some (bm', state', w')
         \<and> chain_at cfg bm' (w_block_id w') (w_offset w') (w_block_id w) (w_offset w) str
         \<and> INVALID_BLOCK cfg < w_block_id w' \<and> w_block_id w' < free_block_id bm'
         \<and> w_offset w' + sizeof_block_id_t \<le> block_size cfg
         \<and> blocks bm' (w_block_id w') = Some cur' \<and> length cur' = block_size cfg
         \<and> free_block_id bm \<le> free_block_id bm'
         \<and> free_block_id bm' \<le> free_block_id bm + int (length str)
         \<and> (\<forall>id. id < free_block_id bm \<longrightarrow> id \<noteq> w_block_id w \<longrightarrow> blocks bm' id = blocks bm id)
         \<and> (\<forall>id. free_block_id bm' \<le> id \<longrightarrow> blocks bm' id = blocks bm id)
         \<and> blocks bm' (w_block_id w) = Some buf' \<and> length buf' = length buf
         \<and> (\<forall>p n. p + n \<le> w_offset w \<longrightarrow> memread buf' p n = memread buf p n)
         \<and> ((w_block_id w' = w_block_id w \<and> w_offset w \<le> w_offset w')
              \<or> free_block_id bm \<le> w_block_id w')
         \<and> temporary_id bm' = temporary_id bm
         \<and> head state' = head state \<and> overflow_blocks state' = overflow_blocks state
         \<and> overflow_writer state' = overflow_writer state"
  using assms
proof (induction "length str" arbitrary: bm state w str buf rule: less_induct)
  case less
  note wb = less.prems(1,2) and buf = less.prems(3) and lb = less.prems(4)
    and off = less.prems(5) and off' = less.prems(6) and B8 = less.prems(7)
    and rng = less.prems(8,9) and ids = less.prems(10)
  let ?wb = "w_block_id w" and ?wo = "w_offset w"
  let ?room = "block_size cfg - sizeof_block_id_t - ?wo"
  show ?case
  proof (cases "str = []")
    case True
    have c: "chain_at cfg bm ?wb ?wo ?wb ?wo []"
      using wb off buf lb by (intro chain_at_lastI [where buf = buf]) (auto simp: memread_def)
    show ?thesis
      apply (rule exI [of _ bm], rule exI [of _ state], rule exI [of _ w])
      apply (rule exI [of _ buf], rule exI [of _ buf])
      using True c wb off buf lb by (simp add: write_overflow_payload_nil)
  next
    case ne: False
    with off' have lt: "?wo + sizeof_block_id_t < block_size cfg" by simp
    show ?thesis
    proof (cases "length str \<le> ?room")
      case True
      have "?wo + length str \<le> length buf" using True lt lb by simp
      then obtain handle' where h': "memcpy buf ?wo str = Some handle'"
        using memcpy_Some by blast
      have lh: "length handle' = block_size cfg" using h' lb memcpy_length by fastforce
      let ?bm' = "bm\<lparr>blocks := (blocks bm)(?wb \<mapsto> handle')\<rparr>"
      let ?w' = "w\<lparr>w_offset := ?wo + length str\<rparr>"
      have w: "write_overflow_payload cfg bm state w str = Some (?bm', state, ?w')"
        using ne lt True buf h' by (rule write_overflow_payload_last)
      have rd: "memread handle' ?wo (length str) = Some str"
        using h' by (rule memread_memcpy_same)
      have c: "chain_at cfg ?bm' ?wb (?wo + length str) ?wb ?wo str"
        using wb off lh True rd
        by (intro chain_at_lastI [where buf = handle']) auto
      have fr: "\<forall>p n. p + n \<le> ?wo \<longrightarrow> memread handle' p n = memread buf p n"
        using memread_memcpy_other [OF h'] by simp
      have off2: "?wo + length str + sizeof_block_id_t \<le> block_size cfg"
        using True lt by simp
      show ?thesis
        apply (rule exI [of _ ?bm'], rule exI [of _ state], rule exI [of _ ?w'])
        apply (rule exI [of _ handle'], rule exI [of _ handle'])
        using w c wb off2 lh lb fr by simp
    next
      case False
      have room_le: "?wo + ?room \<le> length buf" using lt lb by simp
      have ltk: "length (take ?room str) = ?room" using False by simp
      from room_le ltk obtain handle' where
        h': "memcpy buf ?wo (take ?room str) = Some handle'"
        using memcpy_Some [of ?wo "take ?room str" buf] by auto
      have lh': "length handle' = block_size cfg" using h' lb memcpy_length by fastforce
      let ?new = "free_block_id bm"
      have "block_size cfg - sizeof_block_id_t + 8 \<le> length handle'"
        using lh' B8 by (simp add: sizeof_block_id_t_def)
      then obtain handle'' where
        h'': "Store_block_id ?new handle' (block_size cfg - sizeof_block_id_t) = Some handle''"
        using Store_block_id_Some by blast
      have lh'': "length handle'' = block_size cfg"
        using h'' lh' Store_block_id_length by fastforce
      let ?bm2 = "bm\<lparr>blocks := (blocks bm)(?wb \<mapsto> handle'',
                                           ?new \<mapsto> replicate (block_size cfg) 0),
                   free_block_id := ?new + 1\<rparr>"
      let ?st2 = "state\<lparr>on_disk_blocks := on_disk_blocks state @ [?new]\<rparr>"
      let ?w2 = "\<lparr>w_block_id = ?new, w_offset = 0\<rparr>"
      let ?rest = "drop ?room str"
      have inv: "?wb \<noteq> INVALID_BLOCK cfg" using wb by simp
      have step: "write_overflow_payload cfg bm state w str
                    = write_overflow_payload cfg ?bm2 ?st2 ?w2 ?rest"
        using ne lt False buf h' h'' inv by (rule write_overflow_payload_next)
      have room_pos: "0 < ?room" using lt by simp
      have lrest: "length ?rest = length str - ?room" by (rule length_drop)
      have lpos: "0 < length str" using ne by simp
      have shorter: "length ?rest < length str" using room_pos lpos lrest by linarith
      have "int (length ?rest) + 1 \<le> int (length str)" using shorter by linarith
      then have ids2: "free_block_id ?bm2 + int (length ?rest) \<le> MAXIMUM_BLOCK cfg"
        using ids by simp
      have neq: "?wb \<noteq> ?new" using wb by simp
      from less.hyps [OF shorter, of ?w2 ?bm2 "replicate (block_size cfg) 0" ?st2]
        wb B8 rng ids2 neq
      obtain bm' state' w' buf2 cur' where
        r: "write_overflow_payload cfg ?bm2 ?st2 ?w2 ?rest = Some (bm', state', w')"
        and c2: "chain_at cfg bm' (w_block_id w') (w_offset w') ?new 0 ?rest"
        and w'ok: "INVALID_BLOCK cfg < w_block_id w'" "w_block_id w' < free_block_id bm'"
          "w_offset w' + sizeof_block_id_t \<le> block_size cfg"
          "blocks bm' (w_block_id w') = Some cur'" "length cur' = block_size cfg"
        and free2: "?new + 1 \<le> free_block_id bm'"
          "free_block_id bm' \<le> ?new + 1 + int (length ?rest)"
        and same2: "\<forall>id. id < ?new + 1 \<longrightarrow> id \<noteq> ?new \<longrightarrow> blocks bm' id = blocks ?bm2 id"
        and above2: "\<forall>id. free_block_id bm' \<le> id \<longrightarrow> blocks bm' id = blocks ?bm2 id"
        and pos2: "(w_block_id w' = ?new \<and> 0 \<le> w_offset w') \<or> ?new + 1 \<le> w_block_id w'"
        and tid: "temporary_id bm' = temporary_id bm"
        and st: "head state' = head state" "overflow_blocks state' = overflow_blocks state"
          "overflow_writer state' = overflow_writer state"
        by (auto simp: sizeof_block_id_t_def)
      have bwb: "blocks bm' ?wb = Some handle''"
        using same2 wb neq by simp
      have wneq: "w_block_id w' \<noteq> ?wb" using pos2 wb by auto
      have "memread handle'' ?wo ?room = memread handle' ?wo ?room"
        using lt by (intro Store_block_id_other [OF h'']) simp
      also have "\<dots> = Some (take ?room str)"
        using memread_memcpy_same [OF h'] ltk by simp
      finally have rd: "memread handle'' ?wo ?room = Some (take ?room str)" .
      have "1 \<le> int (length str)" using lpos by linarith
      then have newrng: "- (2 ^ 63) \<le> ?new" "?new < 2 ^ 63"
        using wb rng ids by linarith+
      have ld: "Load_block_id handle'' (block_size cfg - sizeof_block_id_t) = Some ?new"
        using h'' newrng by (rule Load_block_id_Store_block_id)
      have freelt: "?wb < free_block_id bm'" using wb free2 by simp
      have c: "chain_at cfg bm' (w_block_id w') (w_offset w') ?wb ?wo str"
        using wb(1) freelt lt bwb lh'' False wneq rd ld c2
        by (rule chain_at_nextI)
      have fr: "\<forall>p n. p + n \<le> ?wo \<longrightarrow> memread handle'' p n = memread buf p n"
      proof (intro allI impI)
        fix p n assume pn: "p + n \<le> ?wo"
        have "p + n \<le> block_size cfg - sizeof_block_id_t" using pn lt by linarith
        then have "memread handle'' p n = memread handle' p n"
          by (intro Store_block_id_other [OF h'']) simp
        also have "\<dots> = memread buf p n"
          using pn by (intro memread_memcpy_other [OF h']) simp
        finally show "memread handle'' p n = memread buf p n" .
      qed
      have same: "\<forall>id. id < ?new \<longrightarrow> id \<noteq> ?wb \<longrightarrow> blocks bm' id = blocks bm id"
        using same2 by simp
      have above: "\<forall>id. free_block_id bm' \<le> id \<longrightarrow> blocks bm' id = blocks bm id"
        using above2 free2 wb by simp
      have free_up: "free_block_id bm' \<le> ?new + int (length str)"
        using free2 shorter by linarith
      have pos: "?new \<le> w_block_id w'" using pos2 by auto
      show ?thesis
        apply (rule exI [of _ bm'], rule exI [of _ state'], rule exI [of _ w'])
        apply (rule exI [of _ handle''], rule exI [of _ cur'])
        using step r c w'ok free2 free_up same above bwb lh'' lb fr pos tid st by simp
    qed
  qed
qed

lemma disk_extends_refl: "disk_extends bm wb wo bm wb wo"
  by (auto simp: disk_extends_def)

lemma disk_extends_trans:
  assumes a: "disk_extends bm wb wo bm1 wb1 wo1" and b: "disk_extends bm1 wb1 wo1 bm2 wb2 wo2"
  shows "disk_extends bm wb wo bm2 wb2 wo2"
proof -
  from a have a1: "free_block_id bm \<le> free_block_id bm1"
    and a2: "\<And>id. id < free_block_id bm \<Longrightarrow> id \<noteq> wb \<Longrightarrow> blocks bm1 id = blocks bm id"
    and a3: "\<And>buf. blocks bm wb = Some buf \<Longrightarrow> wb < free_block_id bm \<Longrightarrow>
            (\<exists>buf'. blocks bm1 wb = Some buf' \<and> length buf' = length buf
               \<and> (\<forall>p n. p + n \<le> wo \<longrightarrow> memread buf' p n = memread buf p n))"
    and a4: "(wb1 = wb \<and> wo \<le> wo1) \<or> free_block_id bm \<le> wb1"
    unfolding disk_extends_def by blast+
  from b have b1: "free_block_id bm1 \<le> free_block_id bm2"
    and b2: "\<And>id. id < free_block_id bm1 \<Longrightarrow> id \<noteq> wb1 \<Longrightarrow> blocks bm2 id = blocks bm1 id"
    and b3: "\<And>buf. blocks bm1 wb1 = Some buf \<Longrightarrow> wb1 < free_block_id bm1 \<Longrightarrow>
            (\<exists>buf'. blocks bm2 wb1 = Some buf' \<and> length buf' = length buf
               \<and> (\<forall>p n. p + n \<le> wo1 \<longrightarrow> memread buf' p n = memread buf p n))"
    and b4: "(wb2 = wb1 \<and> wo1 \<le> wo2) \<or> free_block_id bm1 \<le> wb2"
    unfolding disk_extends_def by blast+
  have 1: "free_block_id bm \<le> free_block_id bm2" using a1 b1 by simp
  have 2: "blocks bm2 id = blocks bm id" if "id < free_block_id bm" "id \<noteq> wb" for id
  proof -
    have "id \<noteq> wb1" using a4 that by auto
    then have "blocks bm2 id = blocks bm1 id" using b2 that a1 by simp
    then show ?thesis using a2 that by simp
  qed
  have 3: "\<exists>buf'. blocks bm2 wb = Some buf' \<and> length buf' = length buf
               \<and> (\<forall>p n. p + n \<le> wo \<longrightarrow> memread buf' p n = memread buf p n)"
    if "blocks bm wb = Some buf" "wb < free_block_id bm" for buf
  proof -
    from a3 [OF that] obtain buf1 where buf1: "blocks bm1 wb = Some buf1"
      "length buf1 = length buf"
      "\<forall>p n. p + n \<le> wo \<longrightarrow> memread buf1 p n = memread buf p n" by blast
    show ?thesis
    proof (cases "wb1 = wb")
      case True
      with a4 that have le: "wo \<le> wo1" by auto
      have "wb1 < free_block_id bm1" using True that a1 by simp
      with b3 [of buf1] buf1 True obtain buf2 where "blocks bm2 wb = Some buf2"
        "length buf2 = length buf1"
        "\<forall>p n. p + n \<le> wo1 \<longrightarrow> memread buf2 p n = memread buf1 p n" by auto
      then show ?thesis using buf1 le by auto
    next
      case False
      then have "blocks bm2 wb = blocks bm1 wb" using b2 [of wb] that a1 by simp
      then show ?thesis using buf1 by auto
    qed
  qed
  have 4: "(wb2 = wb \<and> wo \<le> wo2) \<or> free_block_id bm \<le> wb2"
    using a4 b4 a1 by auto
  show ?thesis unfolding disk_extends_def using 1 2 3 4 by blast
qed

lemma chain_at_extends:
  assumes "chain_at cfg bm wb wo block offset str" and "disk_extends bm wb wo bm' wb' wo'"
  shows "chain_at cfg bm' wb' wo' block offset str"
  using assms(2) unfolding disk_extends_def
  by (intro chain_at_frame [OF assms(1)]) blast+

lemma write_overflow_payload_extends:
  assumes "INVALID_BLOCK cfg < w_block_id w" and "w_block_id w < free_block_id bm"
    and "blocks bm (w_block_id w) = Some buf" and "length buf = block_size cfg"
    and "w_offset w + sizeof_block_id_t \<le> block_size cfg"
    and "str \<noteq> [] \<longrightarrow> w_offset w + sizeof_block_id_t < block_size cfg"
    and "sizeof_block_id_t < block_size cfg"
    and "- (2 ^ 63) \<le> INVALID_BLOCK cfg" and "MAXIMUM_BLOCK cfg \<le> 2 ^ 63"
    and "free_block_id bm + int (length str) \<le> MAXIMUM_BLOCK cfg"
  shows "\<exists>bm' state' w' cur'.
           write_overflow_payload cfg bm state w str = Some (bm', state', w')
         \<and> chain_at cfg bm' (w_block_id w') (w_offset w') (w_block_id w) (w_offset w) str
         \<and> disk_extends bm (w_block_id w) (w_offset w) bm' (w_block_id w') (w_offset w')
         \<and> INVALID_BLOCK cfg < w_block_id w' \<and> w_block_id w' < free_block_id bm'
         \<and> w_offset w' + sizeof_block_id_t \<le> block_size cfg
         \<and> blocks bm' (w_block_id w') = Some cur' \<and> length cur' = block_size cfg
         \<and> free_block_id bm' \<le> free_block_id bm + int (length str)
         \<and> (\<forall>id. free_block_id bm' \<le> id \<longrightarrow> blocks bm' id = blocks bm id)
         \<and> temporary_id bm' = temporary_id bm
         \<and> head state' = head state \<and> overflow_blocks state' = overflow_blocks state
         \<and> overflow_writer state' = overflow_writer state"
proof -
  from write_overflow_payload_chain [OF assms, of state]
  obtain bm' state' w' buf' cur' where
    r: "write_overflow_payload cfg bm state w str = Some (bm', state', w')"
    and c: "chain_at cfg bm' (w_block_id w') (w_offset w') (w_block_id w) (w_offset w) str"
    and ok: "INVALID_BLOCK cfg < w_block_id w'" "w_block_id w' < free_block_id bm'"
      "w_offset w' + sizeof_block_id_t \<le> block_size cfg"
      "blocks bm' (w_block_id w') = Some cur'" "length cur' = block_size cfg"
    and fr: "free_block_id bm \<le> free_block_id bm'"
      "free_block_id bm' \<le> free_block_id bm + int (length str)"
      "\<forall>id. id < free_block_id bm \<longrightarrow> id \<noteq> w_block_id w \<longrightarrow> blocks bm' id = blocks bm id"
      "\<forall>id. free_block_id bm' \<le> id \<longrightarrow> blocks bm' id = blocks bm id"
      "blocks bm' (w_block_id w) = Some buf'" "length buf' = length buf"
      "\<forall>p n. p + n \<le> w_offset w \<longrightarrow> memread buf' p n = memread buf p n"
      "(w_block_id w' = w_block_id w \<and> w_offset w \<le> w_offset w')
              \<or> free_block_id bm \<le> w_block_id w'"
      "temporary_id bm' = temporary_id bm"
    and st: "head state' = head state" "overflow_blocks state' = overflow_blocks state"
      "overflow_writer state' = overflow_writer state"
    by blast
  have e: "disk_extends bm (w_block_id w) (w_offset w) bm' (w_block_id w') (w_offset w')"
    unfolding disk_extends_def using fr assms(3) by auto
  show ?thesis using r c e ok fr(2,4,9) st by blast
qed

lemma disk_string_at_extends:
  assumes d: "disk_string_at cfg bm state block offset v"
    and e: "disk_extends bm (writer_block cfg state) (writer_offset state)
              bm' (writer_block cfg state') (writer_offset state')"
  shows "disk_string_at cfg bm' state' block offset v"
proof -
  let ?wb = "writer_block cfg state" and ?wo = "writer_offset state"
  from d obtain buf where m: "block < MAXIMUM_BLOCK cfg" "0 \<le> offset"
    and b: "blocks bm block = Some buf"
    and l: "Load_uint32 buf (nat offset) = Some (length v)"
    and c: "chain_at cfg bm ?wb ?wo block (nat offset + 4) v"
    unfolding disk_string_at_def by blast
  have c': "chain_at cfg bm' (writer_block cfg state') (writer_offset state') block
              (nat offset + 4) v"
    using c e by (rule chain_at_extends)
  from chain_at_block [OF c] have lt: "block < free_block_id bm" by blast
  have "\<exists>buf'. blocks bm' block = Some buf' \<and> Load_uint32 buf' (nat offset) = Some (length v)"
  proof (cases "block = ?wb")
    case False
    then have "blocks bm' block = blocks bm block"
      using e lt unfolding disk_extends_def by blast
    then show ?thesis using b l by simp
  next
    case True
    have last: "length v \<le> block_size cfg - sizeof_block_id_t - (nat offset + 4)"
      using chain_at_next [OF c b] True by blast
    from chain_at_last [OF c b last] True have le: "nat offset + 4 + length v \<le> ?wo" by simp
    from e b lt True obtain buf' where b': "blocks bm' block = Some buf'"
      and fr: "\<forall>p n. p + n \<le> ?wo \<longrightarrow> memread buf' p n = memread buf p n"
      unfolding disk_extends_def by blast
    have "memread buf' (nat offset) 4 = memread buf (nat offset) 4" using fr le by simp
    then have "Load_uint32 buf' (nat offset) = Load_uint32 buf (nat offset)"
      by (rule Load_uint32_cong)
    then show ?thesis using b' l by simp
  qed
  then show ?thesis unfolding disk_string_at_def using m c' by blast
qed

lemma writer_open_block:
  assumes inv: "disk_inv cfg bm state" and ow: "overflow_writer state = Some w"
    and B: "12 < block_size cfg"
  shows "\<exists>bm1 state1 w1 cur1.
           (if w_block_id w = INVALID_BLOCK cfg
               \<or> w_offset w + 2 * 4 \<ge> block_size cfg - sizeof_block_id_t
            then AllocateNewBlock cfg bm state w else Some (bm, state, w))
             = Some (bm1, state1, w1)
         \<and> INVALID_BLOCK cfg < w_block_id w1 \<and> w_block_id w1 < free_block_id bm1
         \<and> blocks bm1 (w_block_id w1) = Some cur1 \<and> length cur1 = block_size cfg
         \<and> w_offset w1 + 12 < block_size cfg
         \<and> disk_extends bm (w_block_id w) (w_offset w) bm1 (w_block_id w1) (w_offset w1)
         \<and> free_block_id bm1 \<le> free_block_id bm + 1
         \<and> (\<forall>id. free_block_id bm1 \<le> id \<longrightarrow> blocks bm1 id = blocks bm id)
         \<and> temporary_id bm1 = temporary_id bm
         \<and> head state1 = head state \<and> overflow_blocks state1 = overflow_blocks state
         \<and> overflow_writer state1 = overflow_writer state"
proof -
  from inv have fr: "INVALID_BLOCK cfg < free_block_id bm"
    and wv: "w_block_id w \<noteq> INVALID_BLOCK cfg \<Longrightarrow>
            INVALID_BLOCK cfg < w_block_id w \<and> w_block_id w < free_block_id bm
            \<and> w_offset w + sizeof_block_id_t \<le> block_size cfg
            \<and> (\<exists>buf. blocks bm (w_block_id w) = Some buf \<and> length buf = block_size cfg)"
    unfolding disk_inv_def using ow by blast+
  let ?new = "free_block_id bm"
  let ?zeros = "replicate (block_size cfg) (0::byte)"
  let ?st1 = "state\<lparr>on_disk_blocks := on_disk_blocks state @ [?new]\<rparr>"
  let ?w1 = "\<lparr>w_block_id = ?new, w_offset = 0\<rparr>"
  show ?thesis
  proof (cases "w_block_id w = INVALID_BLOCK cfg")
    case True
    let ?bm1 = "bm\<lparr>blocks := (blocks bm)(?new \<mapsto> ?zeros), free_block_id := ?new + 1\<rparr>"
    have a: "AllocateNewBlock cfg bm state w = Some (?bm1, ?st1, ?w1)"
      using True by (simp add: AllocateNewBlock_def Let_def)
    have e: "disk_extends bm (w_block_id w) (w_offset w) ?bm1 ?new 0"
      unfolding disk_extends_def using True fr by auto
    show ?thesis
      apply (rule exI [of _ ?bm1], rule exI [of _ ?st1], rule exI [of _ ?w1])
      apply (rule exI [of _ ?zeros])
      using True a e fr B by simp
  next
    case valid: False
    from wv [OF valid] obtain buf where wb: "INVALID_BLOCK cfg < w_block_id w"
      "w_block_id w < free_block_id bm"
      and wo: "w_offset w + sizeof_block_id_t \<le> block_size cfg"
      and buf: "blocks bm (w_block_id w) = Some buf" and lb: "length buf = block_size cfg"
      by blast
    show ?thesis
    proof (cases "w_offset w + 2 * 4 \<ge> block_size cfg - sizeof_block_id_t")
      case True
      have "block_size cfg - sizeof_block_id_t + 8 \<le> length buf"
        using lb B by (simp add: sizeof_block_id_t_def)
      then obtain handle' where
        h': "Store_block_id ?new buf (block_size cfg - sizeof_block_id_t) = Some handle'"
        using Store_block_id_Some by blast
      have lh': "length handle' = length buf" using h' by (rule Store_block_id_length)
      let ?bm1 = "bm\<lparr>blocks := (blocks bm)(w_block_id w \<mapsto> handle', ?new \<mapsto> ?zeros),
                     free_block_id := ?new + 1\<rparr>"
      have a: "AllocateNewBlock cfg bm state w = Some (?bm1, ?st1, ?w1)"
        using valid buf h' by (simp add: AllocateNewBlock_def Let_def)
      have frm: "\<forall>p n. p + n \<le> w_offset w \<longrightarrow> memread handle' p n = memread buf p n"
      proof (intro allI impI)
        fix p n assume "p + n \<le> w_offset w"
        then have "p + n \<le> block_size cfg - sizeof_block_id_t" using wo by linarith
        then show "memread handle' p n = memread buf p n"
          by (intro Store_block_id_other [OF h']) simp
      qed
      have e: "disk_extends bm (w_block_id w) (w_offset w) ?bm1 ?new 0"
        unfolding disk_extends_def using wb buf lh' frm by auto
      show ?thesis
        apply (rule exI [of _ ?bm1], rule exI [of _ ?st1], rule exI [of _ ?w1])
        apply (rule exI [of _ ?zeros])
        using valid True a e fr B wb by simp
    next
      case False
      then have room: "w_offset w + 12 < block_size cfg"
        by (simp add: sizeof_block_id_t_def)
      show ?thesis
        apply (rule exI [of _ bm], rule exI [of _ state], rule exI [of _ w])
        apply (rule exI [of _ buf])
        using valid False wb buf lb room by (simp add: disk_extends_refl)
    qed
  qed
qed

lemma disk_write_inv:
  assumes inv: "disk_inv cfg bm state" and ow: "overflow_writer state = Some w"
    and B: "12 < block_size cfg" "block_size cfg < 2 ^ 31"
    and rng: "- (2 ^ 63) \<le> INVALID_BLOCK cfg" "MAXIMUM_BLOCK cfg \<le> 2 ^ 63"
    and ids: "free_block_id bm + 1 + int (length v) \<le> MAXIMUM_BLOCK cfg"
    and len: "length v < 2 ^ 32"
  shows "\<exists>bm' state' block offset.
           WriteOverflowStringsToDisk_WriteString cfg bm state w v
             = Some (bm', state', block, offset)
         \<and> disk_inv cfg bm' state'
         \<and> disk_string_at cfg bm' state' block offset v
         \<and> disk_extends bm (writer_block cfg state) (writer_offset state)
              bm' (writer_block cfg state') (writer_offset state')
         \<and> (\<forall>id. MAXIMUM_BLOCK cfg \<le> id \<longrightarrow> blocks bm' id = blocks bm id)
         \<and> temporary_id bm' = temporary_id bm
         \<and> head state' = head state \<and> overflow_blocks state' = overflow_blocks state
         \<and> overflow_writer state' \<noteq> None
         \<and> free_block_id bm' \<le> free_block_id bm + 1 + int (length v)
         \<and> INVALID_BLOCK cfg < block \<and> block < MAXIMUM_BLOCK cfg
         \<and> 0 \<le> offset \<and> offset < 2 ^ 31"
proof -
  from writer_open_block [OF inv ow B(1)] obtain bm1 state1 w1 cur1 where
    o: "(if w_block_id w = INVALID_BLOCK cfg
               \<or> w_offset w + 2 * 4 \<ge> block_size cfg - sizeof_block_id_t
            then AllocateNewBlock cfg bm state w else Some (bm, state, w))
             = Some (bm1, state1, w1)"
    and w1: "INVALID_BLOCK cfg < w_block_id w1" "w_block_id w1 < free_block_id bm1"
    and cur1: "blocks bm1 (w_block_id w1) = Some cur1" "length cur1 = block_size cfg"
    and room1: "w_offset w1 + 12 < block_size cfg"
    and e1: "disk_extends bm (w_block_id w) (w_offset w) bm1 (w_block_id w1) (w_offset w1)"
    and free1: "free_block_id bm1 \<le> free_block_id bm + 1"
    and above1: "\<forall>id. free_block_id bm1 \<le> id \<longrightarrow> blocks bm1 id = blocks bm id"
    and tid1: "temporary_id bm1 = temporary_id bm"
    and st1: "head state1 = head state" "overflow_blocks state1 = overflow_blocks state"
    by blast
  let ?wb = "w_block_id w1" and ?wo = "w_offset w1"
  have "?wo + 4 \<le> length cur1" using room1 cur1 by simp
  then obtain handle' where h': "Store_uint32 (length v) cur1 ?wo = Some handle'"
    using Store_uint32_Some by blast
  have lh': "length handle' = block_size cfg"
    using h' cur1 Store_uint32_length by fastforce
  let ?bm1' = "bm1\<lparr>blocks := (blocks bm1)(?wb \<mapsto> handle')\<rparr>"
  let ?w1' = "w1\<lparr>w_offset := ?wo + 4\<rparr>"
  have frh: "\<forall>p n. p + n \<le> ?wo \<longrightarrow> memread handle' p n = memread cur1 p n"
    using Store_uint32_other [OF h'] by simp
  have e2: "disk_extends bm1 ?wb ?wo ?bm1' ?wb (?wo + 4)"
    unfolding disk_extends_def using cur1 lh' frh by auto
  have ids': "free_block_id ?bm1' + int (length v) \<le> MAXIMUM_BLOCK cfg"
    using ids free1 by simp
  have p1: "w_block_id ?w1' < free_block_id ?bm1'" using w1 by simp
  have p2: "blocks ?bm1' (w_block_id ?w1') = Some handle'" by simp
  have p3: "w_offset ?w1' + sizeof_block_id_t \<le> block_size cfg"
    using room1 by (simp add: sizeof_block_id_t_def)
  have p4: "v \<noteq> [] \<longrightarrow> w_offset ?w1' + sizeof_block_id_t < block_size cfg"
    using room1 by (simp add: sizeof_block_id_t_def)
  have p5: "sizeof_block_id_t < block_size cfg" using B by (simp add: sizeof_block_id_t_def)
  have p0: "INVALID_BLOCK cfg < w_block_id ?w1'" using w1 by simp
  from write_overflow_payload_extends [OF p0 p1 p2 lh' p3 p4 p5 rng ids', of state1]
  obtain bm2 state2 w2 cur2 where
    r: "write_overflow_payload cfg ?bm1' state1 ?w1' v = Some (bm2, state2, w2)"
    and c: "chain_at cfg bm2 (w_block_id w2) (w_offset w2) ?wb (?wo + 4) v"
    and e3: "disk_extends ?bm1' ?wb (?wo + 4) bm2 (w_block_id w2) (w_offset w2)"
    and w2: "INVALID_BLOCK cfg < w_block_id w2" "w_block_id w2 < free_block_id bm2"
      "w_offset w2 + sizeof_block_id_t \<le> block_size cfg"
      "blocks bm2 (w_block_id w2) = Some cur2" "length cur2 = block_size cfg"
    and free2: "free_block_id bm2 \<le> free_block_id ?bm1' + int (length v)"
    and above2: "\<forall>id. free_block_id bm2 \<le> id \<longrightarrow> blocks bm2 id = blocks ?bm1' id"
    and tid2: "temporary_id bm2 = temporary_id ?bm1'"
    and st2: "head state2 = head state1" "overflow_blocks state2 = overflow_blocks state1"
    by (auto simp: sizeof_block_id_t_def)
  let ?st' = "state2\<lparr>overflow_writer := Some w2\<rparr>"
  have off32: "UnsafeNumericCast_int32 (int ?wo) = int ?wo"
    using room1 B by (intro UnsafeNumericCast_int32_id) simp
  have len32: "UnsafeNumericCast_uint32 (int (length v)) = length v"
    using len by (rule UnsafeNumericCast_uint32_id)
  have res: "WriteOverflowStringsToDisk_WriteString cfg bm state w v
               = Some (bm2, ?st', ?wb, int ?wo)"
    unfolding WriteOverflowStringsToDisk_WriteString_def
    using o cur1 h' r off32 len32 by (simp add: Let_def)
  have wbs: "writer_block cfg state = w_block_id w" "writer_offset state = w_offset w"
    using ow by (simp_all add: writer_block_def writer_offset_def)
  have wbs': "writer_block cfg ?st' = w_block_id w2" "writer_offset ?st' = w_offset w2"
    by (simp_all add: writer_block_def writer_offset_def)
  have e: "disk_extends bm (w_block_id w) (w_offset w) bm2 (w_block_id w2) (w_offset w2)"
    using disk_extends_trans [OF disk_extends_trans [OF e1 e2] e3] .
  have frees: "free_block_id bm \<le> free_block_id bm2"
    "free_block_id bm2 \<le> free_block_id bm + 1 + int (length v)"
    using e free1 free2 unfolding disk_extends_def by auto
  have inv': "disk_inv cfg bm2 ?st'"
    unfolding disk_inv_def using inv frees ids w2 by (auto simp: disk_inv_def)
  have wbmax: "?wb < MAXIMUM_BLOCK cfg" using w1 free1 ids by linarith
  from e3 p2 p1 obtain buf' where b2: "blocks bm2 ?wb = Some buf'"
    and fr2: "\<forall>p n. p + n \<le> ?wo + 4 \<longrightarrow> memread buf' p n = memread handle' p n"
    unfolding disk_extends_def by auto
  have "memread buf' ?wo 4 = memread handle' ?wo 4" using fr2 by simp
  then have "Load_uint32 buf' ?wo = Load_uint32 handle' ?wo" by (rule Load_uint32_cong)
  then have ld: "Load_uint32 buf' ?wo = Some (length v)"
    using h' len by (simp add: Load_uint32_Store_uint32)
  have new: "disk_string_at cfg bm2 ?st' ?wb (int ?wo) v"
    unfolding disk_string_at_def wbs' using wbmax b2 ld c by simp
  have above: "\<forall>id. MAXIMUM_BLOCK cfg \<le> id \<longrightarrow> blocks bm2 id = blocks bm id"
  proof (intro allI impI)
    fix id assume m: "MAXIMUM_BLOCK cfg \<le> id"
    have "free_block_id bm2 \<le> id" using m frees ids by linarith
    then have "blocks bm2 id = blocks ?bm1' id" using above2 by simp
    moreover have "id \<noteq> ?wb" using m wbmax by simp
    moreover have "free_block_id bm1 \<le> id" using m free1 ids by linarith
    ultimately show "blocks bm2 id = blocks bm id" using above1 by simp
  qed
  have offr: "int ?wo < 2 ^ 31" using room1 B by simp
  show ?thesis
    apply (rule exI [of _ bm2], rule exI [of _ ?st'], rule exI [of _ ?wb])
    apply (rule exI [of _ "int ?wo"])
    using res inv' new e above tid1 tid2 st1 st2 frees w1 wbmax offr
    by (simp add: wbs wbs')
qed

section \<open>Lemmas about the overflow store as a whole\<close>

lemma memory_frame:
  assumes above: "\<forall>id. MAXIMUM_BLOCK cfg \<le> id \<longrightarrow> blocks bm' id = blocks bm id"
    and tid: "temporary_id bm' = temporary_id bm"
    and st: "head state' = head state" "overflow_blocks state' = overflow_blocks state"
  shows "memory_inv cfg bm state \<Longrightarrow> memory_inv cfg bm' state'"
    and "memory_string_at cfg bm state b off u \<Longrightarrow> memory_string_at cfg bm' state' b off u"
proof -
  assume "memory_inv cfg bm state"
  then show "memory_inv cfg bm' state'"
    unfolding memory_inv_def using above tid st by auto
next
  assume "memory_string_at cfg bm state b off u"
  then show "memory_string_at cfg bm' state' b off u"
    unfolding memory_string_at_def using above tid st by auto
qed

lemma disk_frame:
  assumes below: "\<forall>id. id < MAXIMUM_BLOCK cfg \<longrightarrow> blocks bm' id = blocks bm id"
    and free: "free_block_id bm' = free_block_id bm"
    and ow: "overflow_writer state' = overflow_writer state"
    and inv: "disk_inv cfg bm state"
  shows "disk_inv cfg bm' state'"
    and "disk_string_at cfg bm state b off u \<Longrightarrow> disk_string_at cfg bm' state' b off u"
proof -
  from inv have fm: "free_block_id bm \<le> MAXIMUM_BLOCK cfg" unfolding disk_inv_def by simp
  show "disk_inv cfg bm' state'"
    using inv below free ow unfolding disk_inv_def by auto
  assume d: "disk_string_at cfg bm state b off u"
  have wb: "writer_block cfg state' = writer_block cfg state"
    "writer_offset state' = writer_offset state"
    using ow by (simp_all add: writer_block_def writer_offset_def)
  have "disk_extends bm (writer_block cfg state) (writer_offset state)
          bm' (writer_block cfg state) (writer_offset state)"
    unfolding disk_extends_def using below free fm by auto
  then show "disk_string_at cfg bm' state' b off u"
    using d wb disk_string_at_extends by metis
qed

lemma WriteString_inv:
  assumes inv: "overflow_inv cfg bm (segment_state segment)"
    and B: "12 < block_size cfg" "block_size cfg < 2 ^ 31"
    and rng: "- (2 ^ 63) \<le> INVALID_BLOCK cfg" "temporary_id bm < 2 ^ 63"
    and ids: "free_block_id bm + 1 + int (length v) \<le> MAXIMUM_BLOCK cfg"
    and len: "length v + 4 < 2 ^ 31"
  shows "\<exists>bm' segment' block offset.
           WriteString cfg bm segment v = Some (bm', segment', block, offset)
         \<and> overflow_inv cfg bm' (segment_state segment')
         \<and> overflow_string_at cfg bm' (segment_state segment') block offset v
         \<and> (\<forall>b off u. overflow_string_at cfg bm (segment_state segment) b off u \<longrightarrow>
                overflow_string_at cfg bm' (segment_state segment') b off u)
         \<and> segment' = segment\<lparr>segment_state := segment_state segment'\<rparr>
         \<and> temporary_id bm' \<le> temporary_id bm + 1
         \<and> free_block_id bm' \<le> free_block_id bm + 1 + int (length v)
         \<and> (overflow_writer (segment_state segment') = None
               \<longleftrightarrow> overflow_writer (segment_state segment) = None)
         \<and> (block < MAXIMUM_BLOCK cfg \<longleftrightarrow> overflow_writer (segment_state segment) \<noteq> None)"
proof -
  let ?st = "segment_state segment"
  from inv have minv: "memory_inv cfg bm ?st" and dinv: "disk_inv cfg bm ?st"
    unfolding overflow_inv_def by simp_all
  from minv have tmax: "MAXIMUM_BLOCK cfg \<le> temporary_id bm" unfolding memory_inv_def by simp
  from dinv have fmax: "INVALID_BLOCK cfg < free_block_id bm" "free_block_id bm \<le> MAXIMUM_BLOCK cfg"
    unfolding disk_inv_def by simp_all
  have mrng: "MAXIMUM_BLOCK cfg \<le> 2 ^ 63" using tmax rng by linarith
  show ?thesis
  proof (cases "overflow_writer ?st")
    case None
    from WriteStringMemory_inv [OF minv len B(2)] obtain bm' segment' block offset where
      w: "WriteStringMemory cfg bm segment v = Some (bm', segment', block, offset)"
      and minv': "memory_inv cfg bm' (segment_state segment')"
      and new: "memory_string_at cfg bm' (segment_state segment') block offset v"
      and old: "\<forall>b off u. memory_string_at cfg bm ?st b off u \<longrightarrow>
                memory_string_at cfg bm' (segment_state segment') b off u"
      and below: "\<forall>id. id < MAXIMUM_BLOCK cfg \<longrightarrow> blocks bm' id = blocks bm id"
      and free: "free_block_id bm' = free_block_id bm"
      and tid: "temporary_id bm' \<le> temporary_id bm + 1"
      and ow: "overflow_writer (segment_state segment') = overflow_writer ?st"
      and seg: "segment' = segment\<lparr>segment_state := segment_state segment'\<rparr>"
      and blk: "MAXIMUM_BLOCK cfg \<le> block" "block \<le> temporary_id bm"
      and off: "0 \<le> offset" "offset < 2 ^ 31"
      by blast
    have dinv': "disk_inv cfg bm' (segment_state segment')"
      using below free ow dinv by (rule disk_frame(1))
    have dold: "disk_string_at cfg bm' (segment_state segment') b off u"
      if "disk_string_at cfg bm ?st b off u" for b off u
      using disk_frame(2) [OF below free ow dinv that] .
    have r: "- (2 ^ 63) \<le> block" "block < 2 ^ 63"
      using blk rng fmax by linarith+
    have new': "overflow_string_at cfg bm' (segment_state segment') block offset v"
      unfolding overflow_string_at_def using new r off by simp
    have old': "\<forall>b off u. overflow_string_at cfg bm ?st b off u \<longrightarrow>
                overflow_string_at cfg bm' (segment_state segment') b off u"
      unfolding overflow_string_at_def using old dold by blast
    have ws: "WriteString cfg bm segment v = Some (bm', segment', block, offset)"
      using None w by (simp add: WriteString_def)
    show ?thesis
      apply (rule exI [of _ bm'], rule exI [of _ segment'], rule exI [of _ block])
      apply (rule exI [of _ offset])
      using ws minv' dinv' new' old' seg tid free ow None blk
      by (simp add: overflow_inv_def)
  next
    case (Some w)
    have len32: "length v < 2 ^ 32" using len by simp
    from disk_write_inv [OF dinv Some B rng(1) mrng ids len32]
    obtain bm' state' block offset where
      w: "WriteOverflowStringsToDisk_WriteString cfg bm ?st w v
             = Some (bm', state', block, offset)"
      and dinv': "disk_inv cfg bm' state'"
      and new: "disk_string_at cfg bm' state' block offset v"
      and e: "disk_extends bm (writer_block cfg ?st) (writer_offset ?st)
              bm' (writer_block cfg state') (writer_offset state')"
      and above: "\<forall>id. MAXIMUM_BLOCK cfg \<le> id \<longrightarrow> blocks bm' id = blocks bm id"
      and tid: "temporary_id bm' = temporary_id bm"
      and st: "head state' = head ?st" "overflow_blocks state' = overflow_blocks ?st"
      and ow: "overflow_writer state' \<noteq> None"
      and free: "free_block_id bm' \<le> free_block_id bm + 1 + int (length v)"
      and blk: "INVALID_BLOCK cfg < block" "block < MAXIMUM_BLOCK cfg"
      and off: "0 \<le> offset" "offset < 2 ^ 31"
      by blast
    have minv': "memory_inv cfg bm' state'"
      using memory_frame(1) [OF above tid st minv] .
    have mold: "memory_string_at cfg bm' state' b off u"
      if "memory_string_at cfg bm ?st b off u" for b off u
      using memory_frame(2) [OF above tid st that] .
    have dold: "disk_string_at cfg bm' state' b off u"
      if "disk_string_at cfg bm ?st b off u" for b off u
      using that e by (rule disk_string_at_extends)
    have r: "- (2 ^ 63) \<le> block" "block < 2 ^ 63"
      using blk rng mrng by linarith+
    have new': "overflow_string_at cfg bm' state' block offset v"
      unfolding overflow_string_at_def using new r off by simp
    have old': "\<forall>b off u. overflow_string_at cfg bm ?st b off u \<longrightarrow>
                overflow_string_at cfg bm' state' b off u"
      unfolding overflow_string_at_def using mold dold by blast
    have ws: "WriteString cfg bm segment v
                = Some (bm', segment\<lparr>segment_state := state'\<rparr>, block, offset)"
      using Some w by (simp add: WriteString_def)
    show ?thesis
      apply (rule exI [of _ bm'], rule exI [of _ "segment\<lparr>segment_state := state'\<rparr>"])
      apply (rule exI [of _ block], rule exI [of _ offset])
      using ws minv' dinv' new' old' tid free ow Some blk
      by (simp add: overflow_inv_def)
  qed
qed

lemma overflow_string_at_read:
  assumes "overflow_string_at cfg bm (segment_state segment) block offset v"
    and "block_size cfg < 2 ^ 31"
  shows "\<exists>result'. ReadOverflowString cfg bm segment result block offset = Some (v, result')"
  using assms memory_string_at_read disk_string_at_read
  unfolding overflow_string_at_def by blast

section \<open>Lemmas about the segment\<close>

lemma used_space_snoc: "used_space cfg (vs @ [v]) = used_space cfg vs + required_space cfg v"
  by (simp add: used_space_def)

lemma used_space_take_Suc:
  "i < length vs \<Longrightarrow>
     used_space cfg (take (Suc i) vs) = used_space cfg (take i vs) + required_space cfg (vs ! i)"
  by (simp add: take_Suc_conv_app_nth used_space_snoc)

lemma used_space_take_le: "used_space cfg (take k vs) \<le> used_space cfg vs"
proof -
  have "used_space cfg vs = used_space cfg (take k vs) + used_space cfg (drop k vs)"
    unfolding used_space_def
    by (metis append_take_drop_id map_append sum_list_append)
  then show ?thesis by simp
qed

lemma offset_entry_abs: "\<bar>offset_entry cfg vs i\<bar> = int (used_space cfg (take (Suc i) vs))"
  by (simp add: offset_entry_def)

lemma required_space_marker:
  "string_block_limit cfg \<le> length v \<Longrightarrow> required_space cfg v = BIG_STRING_MARKER_SIZE"
  by (simp add: required_space_def)

lemma required_space_inline:
  "\<not> string_block_limit cfg \<le> length v \<Longrightarrow> required_space cfg v = length v"
  by (simp add: required_space_def)

lemma row_stored_row_string:
  assumes rows: "\<forall>j \<le> i. row_stored cfg bm segment dict_end vs j"
    and i: "i < length vs" and de: "dict_end < 2 ^ 31"
    and bo: "block_offset segment = 0" and B: "block_size cfg < 2 ^ 31"
  shows "row_string cfg bm segment dict_end i = Some (vs ! i)"
proof -
  let ?c1 = "used_space cfg (take (Suc i) vs)" and ?c0 = "used_space cfg (take i vs)"
  let ?v = "vs ! i"
  from rows have row: "row_stored cfg bm segment dict_end vs i" by simp
  then have cur: "base_data segment (buffer segment) i = Some (offset_entry cfg vs i)"
    and le: "?c1 \<le> dict_end"
    unfolding row_stored_def by simp_all
  have prev: "offset_before segment i = Some (if i = 0 then 0 else offset_entry cfg vs (i - 1))"
  proof (cases i)
    case 0
    then show ?thesis by (simp add: offset_before_def)
  next
    case (Suc k)
    with rows have "row_stored cfg bm segment dict_end vs k" by simp
    then show ?thesis using Suc by (simp add: offset_before_def row_stored_def)
  qed
  have pabs: "\<bar>if i = 0 then 0 else offset_entry cfg vs (i - 1)\<bar> = int ?c0"
    by (cases i) (simp_all add: offset_entry_abs used_space_def)
  have cabs: "\<bar>offset_entry cfg vs i\<bar> = int ?c1" by (rule offset_entry_abs)
  have c01: "?c1 = ?c0 + required_space cfg ?v" using i by (rule used_space_take_Suc)
  have c1lt: "int ?c1 < 2 ^ 31" using le de by simp
  have a: "std_abs (offset_entry cfg vs i) = Some (int ?c1)"
    using cabs c1lt unfolding std_abs_def by auto
  have c0lt: "int ?c0 < 2 ^ 31" using c01 c1lt by simp
  have b: "std_abs (if i = 0 then 0 else offset_entry cfg vs (i - 1)) = Some (int ?c0)"
    using pabs c0lt unfolding std_abs_def by auto
  have len: "UnsafeNumericCast_uint32 (int ?c1 - int ?c0) = required_space cfg ?v"
  proof -
    have "int ?c1 - int ?c0 = int (required_space cfg ?v)" using c01 by simp
    moreover have "required_space cfg ?v < 2 ^ 32" using c01 c1lt by simp
    ultimately show ?thesis by (simp add: UnsafeNumericCast_uint32_id)
  qed
  have pos: "int (block_offset segment + dict_end) - \<bar>offset_entry cfg vs i\<bar>
               = int (dict_end - ?c1)"
    using bo le cabs by simp
  have f: "fetched_string cfg bm segment dict_end (offset_entry cfg vs i)
             (required_space cfg ?v) = Some ?v"
  proof (cases "string_block_limit cfg \<le> length ?v")
    case False
    with row have rd: "memread (buffer segment) (dict_end - ?c1) (length ?v) = Some ?v"
      unfolding row_stored_def by simp
    have nn: "0 \<le> offset_entry cfg vs i" using False by (simp add: offset_entry_def)
    have rq: "required_space cfg ?v = length ?v" using False by (rule required_space_inline)
    show ?thesis
      unfolding fetched_string_def FetchStringFromDict_def Let_def pos
      using nn rd rq by (simp add: ReadString_def)
  next
    case True
    with row obtain block offset where
      m: "ReadStringMarker (buffer segment) (dict_end - ?c1) = Some (block, offset)"
      and o: "overflow_string_at cfg bm (segment_state segment) block offset ?v"
      unfolding row_stored_def by auto
    have "required_space cfg ?v = BIG_STRING_MARKER_SIZE"
      using True by (rule required_space_marker)
    then have "0 < ?c1" using c01 by (simp add: BIG_STRING_MARKER_SIZE_def sizeof_block_id_t_def)
    then have neg: "\<not> 0 \<le> offset_entry cfg vs i" using True by (simp add: offset_entry_def)
    from overflow_string_at_read [OF o B, of empty_vector] obtain result' where
      "ReadOverflowString cfg bm segment empty_vector block offset = Some (?v, result')" by blast
    then show ?thesis
      unfolding fetched_string_def FetchStringFromDict_def Let_def pos
      using neg m by simp
  qed
  show ?thesis
    unfolding row_string_def using cur prev a b len f by simp
qed

lemma rows_stored_scan:
  assumes rows: "\<forall>i < length vs. row_stored cfg bm segment dict_end vs i"
    and de: "GetDictionaryEnd segment (buffer segment) = Some dict_end" "dict_end < 2 ^ 31"
    and bo: "block_offset segment = 0" and B: "block_size cfg < 2 ^ 31"
    and room: "length vs \<le> length (data result)"
  shows "\<exists>scanned. StringScan cfg bm segment 0 (length vs) result = Some scanned
           \<and> data scanned = vs @ drop (length vs) (data result)"
proof -
  have r: "\<forall>j < length vs. row_string cfg bm segment dict_end (0 + 0 + j) = Some (vs ! j)"
  proof (intro allI impI)
    fix j assume j: "j < length vs"
    then have "\<forall>k \<le> j. row_stored cfg bm segment dict_end vs k" using rows by simp
    then show "row_string cfg bm segment dict_end (0 + 0 + j) = Some (vs ! j)"
      using row_stored_row_string [OF _ j de(2) bo B] by simp
  qed
  have ob: "offset_before segment (0 + 0) = Some 0" by (simp add: offset_before_def)
  have rm: "0 + 0 + length vs \<le> length (data result)" using room by simp
  from scan_loop_Some [OF ob r refl rm] obtain scanned where
    "scan_loop cfg bm segment dict_end 0 0 0 (length vs) 0 result = Some scanned"
    "data scanned = take (0 + 0) (data result) @ vs @ drop (0 + 0 + length vs) (data result)"
    by blast
  then show ?thesis using de(1) by (simp add: StringScan_def StringScanPartial_def)
qed

lemma SetDictionary_Some:
  assumes "block_offset segment + 8 \<le> length h"
  shows "\<exists>h'. SetDictionary segment h d = Some h'"
proof -
  from assms obtain h1 where h1: "Store_uint32 (dictionary_size d) h (block_offset segment) = Some h1"
    using Store_uint32_Some [of "block_offset segment" h] by auto
  then have "length h1 = length h" by (rule Store_uint32_length)
  with assms obtain h2 where "Store_uint32 (dictionary_end d) h1 (block_offset segment + 4) = Some h2"
    using Store_uint32_Some [of "block_offset segment + 4" h1] by auto
  with h1 show ?thesis by (simp add: SetDictionary_def Let_def)
qed

lemma SetDictionary_props:
  assumes s: "SetDictionary segment h d = Some h'"
    and r: "dictionary_size d < 2 ^ 32" "dictionary_end d < 2 ^ 32"
    and bo: "block_offset segment' = block_offset segment"
  shows "GetDictionary segment' h' = Some d"
    and "GetDictionaryEnd segment' h' = Some (dictionary_end d)"
    and "length h' = length h"
    and "\<And>p n. p + n \<le> block_offset segment \<or> block_offset segment + 8 \<le> p \<Longrightarrow>
           memread h' p n = memread h p n"
proof -
  let ?o = "block_offset segment"
  from s obtain h1 where h1: "Store_uint32 (dictionary_size d) h ?o = Some h1"
    and h2: "Store_uint32 (dictionary_end d) h1 (?o + 4) = Some h'"
    by (auto simp: SetDictionary_def Let_def split: Option.bind_splits)
  have "memread h' ?o 4 = memread h1 ?o 4"
    by (rule Store_uint32_other [OF h2]) simp
  then have "Load_uint32 h' ?o = Load_uint32 h1 ?o" by (rule Load_uint32_cong)
  then have sz: "Load_uint32 h' ?o = Some (dictionary_size d)"
    using h1 r(1) by (simp add: Load_uint32_Store_uint32)
  have en: "Load_uint32 h' (?o + 4) = Some (dictionary_end d)"
    using h2 r(2) by (rule Load_uint32_Store_uint32)
  show "GetDictionary segment' h' = Some d"
    using sz en bo by (simp add: GetDictionary_def)
  show "GetDictionaryEnd segment' h' = Some (dictionary_end d)"
    using en bo by (simp add: GetDictionaryEnd_def)
  show "length h' = length h"
    using h1 h2 Store_uint32_length by fastforce
  fix p n assume pn: "p + n \<le> ?o \<or> ?o + 8 \<le> p"
  have "memread h' p n = memread h1 p n"
    using pn by (intro Store_uint32_other [OF h2]) auto
  also have "\<dots> = memread h p n"
    using pn by (intro Store_uint32_other [OF h1]) auto
  finally show "memread h' p n = memread h p n" .
qed

lemma GetDictionary_End:
  "GetDictionary segment h = Some d \<Longrightarrow> GetDictionaryEnd segment h = Some (dictionary_end d)"
  by (auto simp: GetDictionary_def GetDictionaryEnd_def Let_def split: Option.bind_splits)

lemma ReadStringMarker_cong:
  assumes "\<And>q k. p \<le> q \<Longrightarrow> q + k \<le> p + BIG_STRING_MARKER_SIZE \<Longrightarrow>
             memread h' q k = memread h q k"
  shows "ReadStringMarker h' p = ReadStringMarker h p"
proof -
  have "memread h' p 8 = memread h p 8"
    using assms [of p 8] by (simp add: BIG_STRING_MARKER_SIZE_def sizeof_block_id_t_def)
  then have 1: "Load_block_id h' p = Load_block_id h p" by (rule Load_block_id_cong)
  have "memread h' (p + 8) 4 = memread h (p + 8) 4"
    using assms [of "p + 8" 4] by (simp add: BIG_STRING_MARKER_SIZE_def sizeof_block_id_t_def)
  then have 2: "Load_int32 h' (p + 8) = Load_int32 h (p + 8)" by (rule Load_int32_cong)
  show ?thesis using 1 2 by (simp add: ReadStringMarker_def sizeof_block_id_t_def)
qed

text \<open>The offset entry and the header, written after the payload of a new row.\<close>

lemma append_entry_and_header:
  assumes bo: "block_offset segment = 0" and l1: "length h1 = block_size cfg"
    and cap: "DICTIONARY_HEADER_SIZE + 4 * (n + 1) + new_size \<le> block_size cfg"
    and B: "block_size cfg < 2 ^ 31"
    and e: "- (2 ^ 31) \<le> entry" "entry < 2 ^ 31"
  shows "\<exists>h2 h3.
           Store_int32 entry h1 (block_offset segment + DICTIONARY_HEADER_SIZE + 4 * n) = Some h2
         \<and> SetDictionary segment h2
             \<lparr>dictionary_size = new_size, dictionary_end = block_size cfg\<rparr> = Some h3
         \<and> length h3 = block_size cfg
         \<and> GetDictionary segment h3
             = Some \<lparr>dictionary_size = new_size, dictionary_end = block_size cfg\<rparr>
         \<and> Load_int32 h3 (DICTIONARY_HEADER_SIZE + 4 * n) = Some entry
         \<and> (\<forall>p k. (DICTIONARY_HEADER_SIZE \<le> p \<and> p + k \<le> DICTIONARY_HEADER_SIZE + 4 * n)
                    \<or> DICTIONARY_HEADER_SIZE + 4 * (n + 1) \<le> p \<longrightarrow>
                memread h3 p k = memread h1 p k)"
proof -
  let ?e = "DICTIONARY_HEADER_SIZE + 4 * n"
  have "?e + 4 \<le> length h1" using cap l1 by simp
  then obtain h2 where h2: "Store_int32 entry h1 ?e = Some h2"
    using Store_int32_Some by blast
  have l2: "length h2 = block_size cfg" using h2 l1 Store_int32_length by fastforce
  have "block_offset segment + 8 \<le> length h2"
    using cap l2 bo by (simp add: DICTIONARY_HEADER_SIZE_def)
  then obtain h3 where
    h3: "SetDictionary segment h2 \<lparr>dictionary_size = new_size, dictionary_end = block_size cfg\<rparr>
           = Some h3"
    using SetDictionary_Some by blast
  have r: "dictionary_size \<lparr>dictionary_size = new_size, dictionary_end = block_size cfg\<rparr> < 2 ^ 32"
    "dictionary_end \<lparr>dictionary_size = new_size, dictionary_end = block_size cfg\<rparr> < 2 ^ 32"
    using cap B by simp_all
  note sp = SetDictionary_props [OF h3 r, of segment, OF refl]
  have l3: "length h3 = block_size cfg" using sp(3) l2 by simp
  have "memread h3 ?e 4 = memread h2 ?e 4"
    using bo by (intro sp(4)) (simp add: DICTIONARY_HEADER_SIZE_def)
  then have "Load_int32 h3 ?e = Load_int32 h2 ?e" by (rule Load_int32_cong)
  then have ld: "Load_int32 h3 ?e = Some entry"
    using h2 e by (simp add: Load_int32_Store_int32)
  have fr: "memread h3 p k = memread h1 p k"
    if "(DICTIONARY_HEADER_SIZE \<le> p \<and> p + k \<le> ?e) \<or> DICTIONARY_HEADER_SIZE + 4 * (n + 1) \<le> p"
    for p k
  proof -
    have "memread h3 p k = memread h2 p k"
      using that bo by (intro sp(4)) (auto simp: DICTIONARY_HEADER_SIZE_def)
    also have "\<dots> = memread h1 p k"
      using that by (intro Store_int32_other [OF h2]) auto
    finally show ?thesis .
  qed
  show ?thesis using h2 h3 l3 sp(1) ld fr bo by auto
qed

lemma rows_preserved:
  assumes rows: "\<forall>i < length vs. row_stored cfg bm segment dict_end vs i"
    and fr: "\<And>p k. (DICTIONARY_HEADER_SIZE \<le> p \<and> p + k \<le> DICTIONARY_HEADER_SIZE + 4 * length vs)
                 \<or> dict_end - used_space cfg vs \<le> p \<Longrightarrow>
               memread (buffer segment') p k = memread (buffer segment) p k"
    and bo: "block_offset segment = 0" "block_offset segment' = 0"
    and ov: "\<And>b off u. overflow_string_at cfg bm (segment_state segment) b off u \<Longrightarrow>
               overflow_string_at cfg bm' (segment_state segment') b off u"
    and wr: "overflow_writer (segment_state segment') = None
               \<longleftrightarrow> overflow_writer (segment_state segment) = None"
  shows "\<forall>i < length vs. row_stored cfg bm' segment' dict_end (vs @ ws) i"
proof (intro allI impI)
  fix i assume i: "i < length vs"
  let ?c = "used_space cfg (take (Suc i) vs)"
  from rows i have row: "row_stored cfg bm segment dict_end vs i" by simp
  have tk: "take (Suc i) (vs @ ws) = take (Suc i) vs" using i by simp
  have nth: "(vs @ ws) ! i = vs ! i" using i by (simp add: nth_append)
  have oe: "offset_entry cfg (vs @ ws) i = offset_entry cfg vs i"
    by (simp only: offset_entry_def tk nth)
  have cle: "?c \<le> used_space cfg vs" by (rule used_space_take_le)
  have low: "dict_end - used_space cfg vs \<le> dict_end - ?c" using cle by simp
  have "memread (buffer segment') (DICTIONARY_HEADER_SIZE + 4 * i) 4
          = memread (buffer segment) (DICTIONARY_HEADER_SIZE + 4 * i) 4"
    using i by (intro fr) simp
  then have bd: "base_data segment' (buffer segment') i = base_data segment (buffer segment) i"
    unfolding base_data_def bo by (simp add: Load_int32_def)
  show "row_stored cfg bm' segment' dict_end (vs @ ws) i"
  proof (cases "string_block_limit cfg \<le> length (vs ! i)")
    case False
    have "memread (buffer segment') (dict_end - ?c) (length (vs ! i))
            = memread (buffer segment) (dict_end - ?c) (length (vs ! i))"
      using low by (intro fr) simp
    then show ?thesis
      using row False unfolding row_stored_def tk nth oe bd by simp
  next
    case True
    with row obtain block offset where
      m: "ReadStringMarker (buffer segment) (dict_end - ?c) = Some (block, offset)"
      and o: "overflow_string_at cfg bm (segment_state segment) block offset (vs ! i)"
      and t: "block < MAXIMUM_BLOCK cfg \<longleftrightarrow> overflow_writer (segment_state segment) \<noteq> None"
      unfolding row_stored_def by auto
    have "ReadStringMarker (buffer segment') (dict_end - ?c)
            = ReadStringMarker (buffer segment) (dict_end - ?c)"
    proof (rule ReadStringMarker_cong)
      fix q k assume "dict_end - ?c \<le> q"
      then have "dict_end - used_space cfg vs \<le> q" using low by simp
      then show "memread (buffer segment') q k = memread (buffer segment) q k"
        by (intro fr) simp
    qed
    with m have m': "ReadStringMarker (buffer segment') (dict_end - ?c) = Some (block, offset)"
      by simp
    show ?thesis
      using row True m' ov [OF o] t wr unfolding row_stored_def tk nth oe bd by auto
  qed
qed

lemma StringAppend_inv:
  assumes inv: "segment_inv cfg bm segment vs"
    and cap: "DICTIONARY_HEADER_SIZE + 4 * (length vs + 1) + used_space cfg vs
                + required_space cfg v \<le> block_size cfg"
    and B: "block_size cfg < 2 ^ 31"
    and rng: "- (2 ^ 63) \<le> INVALID_BLOCK cfg" "temporary_id bm < 2 ^ 63"
    and ids: "free_block_id bm + 1 + int (length v) \<le> MAXIMUM_BLOCK cfg"
    and len: "length v + 4 < 2 ^ 31"
  shows "\<exists>bm' segment'.
           StringAppend cfg bm segment v = Some (bm', segment')
         \<and> segment_inv cfg bm' segment' (vs @ [v])
         \<and> temporary_id bm' \<le> temporary_id bm + 1
         \<and> free_block_id bm' \<le> free_block_id bm + 1 + int (length v)
         \<and> (overflow_writer (segment_state segment') = None
               \<longleftrightarrow> overflow_writer (segment_state segment) = None)"
proof -
  let ?n = "length vs" and ?buf = "buffer segment" and ?B = "block_size cfg"
  let ?used = "used_space cfg vs" and ?req = "required_space cfg v"
  let ?new = "?used + ?req"
  let ?pos = "?B - ?new"
  from inv have bo: "block_offset segment = 0" and lb: "length ?buf = ?B"
    and ss: "segment_size segment = ?B" and cnt: "count segment = ?n"
    and gd: "GetDictionary segment ?buf
               = Some \<lparr>dictionary_size = ?used, dictionary_end = ?B\<rparr>"
    and rows: "\<forall>i < ?n. row_stored cfg bm segment ?B vs i"
    and oinv: "overflow_inv cfg bm (segment_state segment)"
    unfolding segment_inv_def by simp_all
  have cap': "DICTIONARY_HEADER_SIZE + 4 * (?n + 1) + ?new \<le> ?B" using cap by simp
  have used': "used_space cfg (vs @ [v]) = ?new" by (rule used_space_snoc)
  have tk: "take (Suc ?n) (vs @ [v]) = vs @ [v]" by simp
  have posle: "?pos + ?req = ?B - ?used" using cap' by simp
  have poslow: "DICTIONARY_HEADER_SIZE + 4 * (?n + 1) \<le> ?pos" using cap' by simp
  have newr: "int ?new < 2 ^ 31" using cap' B by simp
  show ?thesis
  proof (cases "string_block_limit cfg \<le> length v")
    case False
    have rq: "?req = length v" using False by (rule required_space_inline)
    have "?pos + length v \<le> length ?buf" using posle rq lb by simp
    then obtain h1 where h1: "memcpy ?buf ?pos v = Some h1" using memcpy_Some by blast
    have l1: "length h1 = ?B" using h1 lb memcpy_length by fastforce
    have e: "- (2 ^ 31) \<le> int ?new" "int ?new < 2 ^ 31" using newr by simp_all
    from append_entry_and_header [OF bo l1 cap' B e] obtain h2 h3 where
      h2: "Store_int32 (int ?new) h1 (block_offset segment + DICTIONARY_HEADER_SIZE + 4 * ?n)
             = Some h2"
      and h3: "SetDictionary segment h2 \<lparr>dictionary_size = ?new, dictionary_end = ?B\<rparr> = Some h3"
      and l3: "length h3 = ?B"
      and gd3: "GetDictionary segment h3 = Some \<lparr>dictionary_size = ?new, dictionary_end = ?B\<rparr>"
      and ld3: "Load_int32 h3 (DICTIONARY_HEADER_SIZE + 4 * ?n) = Some (int ?new)"
      and fr3: "\<forall>p k. (DICTIONARY_HEADER_SIZE \<le> p \<and> p + k \<le> DICTIONARY_HEADER_SIZE + 4 * ?n)
                    \<or> DICTIONARY_HEADER_SIZE + 4 * (?n + 1) \<le> p \<longrightarrow>
                memread h3 p k = memread h1 p k"
      by blast
    let ?seg' = "segment\<lparr>buffer := h3, count := ?n + 1\<rparr>"
    have res: "StringAppend cfg bm segment v = Some (bm, ?seg')"
      unfolding StringAppend_def
      using gd False h1 h2 h3 bo cnt rq cap' by (simp add: Let_def)
    have fr: "memread (buffer ?seg') p k = memread ?buf p k"
      if "(DICTIONARY_HEADER_SIZE \<le> p \<and> p + k \<le> DICTIONARY_HEADER_SIZE + 4 * ?n)
            \<or> ?B - ?used \<le> p" for p k
    proof -
      have a: "(DICTIONARY_HEADER_SIZE \<le> p \<and> p + k \<le> DICTIONARY_HEADER_SIZE + 4 * ?n)
             \<or> DICTIONARY_HEADER_SIZE + 4 * (?n + 1) \<le> p"
        proof (insert that, elim disjE conjE)
        assume "DICTIONARY_HEADER_SIZE \<le> p" "p + k \<le> DICTIONARY_HEADER_SIZE + 4 * ?n"
        then show ?thesis by simp
      next
        assume "?B - ?used \<le> p"
        then have "DICTIONARY_HEADER_SIZE + 4 * (?n + 1) \<le> p" using poslow posle by simp
        then show ?thesis by simp
      qed
      have b: "p + k \<le> ?pos \<or> ?pos + length v \<le> p"
        proof (insert that, elim disjE conjE)
        assume "DICTIONARY_HEADER_SIZE \<le> p" "p + k \<le> DICTIONARY_HEADER_SIZE + 4 * ?n"
        then have "p + k \<le> ?pos" using poslow by simp
        then show ?thesis by simp
      next
        assume "?B - ?used \<le> p"
        then have "?pos + ?req \<le> p" using posle by simp
        then show ?thesis using rq by simp
      qed
      have "memread h3 p k = memread h1 p k" using fr3 a by blast
      also have "\<dots> = memread ?buf p k" using b by (rule memread_memcpy_other [OF h1])
      finally show ?thesis by simp
    qed
    have old: "\<forall>i < ?n. row_stored cfg bm ?seg' ?B (vs @ [v]) i"
      by (rule rows_preserved [OF rows fr]) (simp_all add: bo)
    have "memread h3 ?pos (length v) = memread h1 ?pos (length v)"
      using fr3 poslow by blast
    then have rd: "memread h3 ?pos (length v) = Some v"
      using memread_memcpy_same [OF h1] by simp
    have new: "row_stored cfg bm ?seg' ?B (vs @ [v]) ?n"
      unfolding row_stored_def tk used'
      using False ld3 rd cap' bo by (simp add: offset_entry_def base_data_def used')
    have all: "\<forall>i < length (vs @ [v]). row_stored cfg bm ?seg' ?B (vs @ [v]) i"
      using old new by (simp add: less_Suc_eq)
    have gd': "GetDictionary ?seg' h3 = Some \<lparr>dictionary_size = ?new, dictionary_end = ?B\<rparr>"
      using gd3 by (simp add: GetDictionary_def)
    have inv': "segment_inv cfg bm ?seg' (vs @ [v])"
      unfolding segment_inv_def used'
      using bo l3 ss gd' cap' all oinv by simp
    show ?thesis
      apply (rule exI [of _ bm], rule exI [of _ ?seg'])
      using res inv' by simp
  next
    case True
    have rq: "?req = BIG_STRING_MARKER_SIZE" using True by (rule required_space_marker)
    have B12: "12 < ?B"
      using cap' rq by (simp add: BIG_STRING_MARKER_SIZE_def sizeof_block_id_t_def
          DICTIONARY_HEADER_SIZE_def)
    from WriteString_inv [OF oinv B12 B rng ids len] obtain bm' seg1 block offset where
      w: "WriteString cfg bm segment v = Some (bm', seg1, block, offset)"
      and oinv': "overflow_inv cfg bm' (segment_state seg1)"
      and onew: "overflow_string_at cfg bm' (segment_state seg1) block offset v"
      and oold: "\<forall>b off u. overflow_string_at cfg bm (segment_state segment) b off u \<longrightarrow>
                overflow_string_at cfg bm' (segment_state seg1) b off u"
      and seg1: "seg1 = segment\<lparr>segment_state := segment_state seg1\<rparr>"
      and tid: "temporary_id bm' \<le> temporary_id bm + 1"
      and free: "free_block_id bm' \<le> free_block_id bm + 1 + int (length v)"
      and ow: "overflow_writer (segment_state seg1) = None
               \<longleftrightarrow> overflow_writer (segment_state segment) = None"
      and tier: "block < MAXIMUM_BLOCK cfg \<longleftrightarrow> overflow_writer (segment_state segment) \<noteq> None"
      by (elim exE conjE) (rule that, assumption+)
    have b1: "buffer seg1 = ?buf" using seg1 by (metis ColumnSegment.select_convs(1)
          ColumnSegment.surjective ColumnSegment.update_convs(5))
    have "?pos + BIG_STRING_MARKER_SIZE \<le> length ?buf" using posle rq lb by simp
    then obtain h1 where h1: "WriteStringMarker ?buf ?pos block offset = Some h1"
      using WriteStringMarker_Some by blast
    have l1: "length h1 = ?B" using h1 lb WriteStringMarker_length by fastforce
    have e: "- (2 ^ 31) \<le> - int ?new" "- int ?new < 2 ^ 31" using newr by simp_all
    from append_entry_and_header [OF bo l1 cap' B e] obtain h2 h3 where
      h2: "Store_int32 (- int ?new) h1 (block_offset segment + DICTIONARY_HEADER_SIZE + 4 * ?n)
             = Some h2"
      and h3: "SetDictionary segment h2 \<lparr>dictionary_size = ?new, dictionary_end = ?B\<rparr> = Some h3"
      and l3: "length h3 = ?B"
      and gd3: "GetDictionary segment h3 = Some \<lparr>dictionary_size = ?new, dictionary_end = ?B\<rparr>"
      and ld3: "Load_int32 h3 (DICTIONARY_HEADER_SIZE + 4 * ?n) = Some (- int ?new)"
      and fr3: "\<forall>p k. (DICTIONARY_HEADER_SIZE \<le> p \<and> p + k \<le> DICTIONARY_HEADER_SIZE + 4 * ?n)
                    \<or> DICTIONARY_HEADER_SIZE + 4 * (?n + 1) \<le> p \<longrightarrow>
                memread h3 p k = memread h1 p k"
      by blast
    let ?seg' = "seg1\<lparr>buffer := h3, count := ?n + 1\<rparr>"
    have res: "StringAppend cfg bm segment v = Some (bm', ?seg')"
      unfolding StringAppend_def
      using gd True w h1 h2 h3 bo cnt rq cap' b1 by (simp add: Let_def)
    have bo1: "block_offset ?seg' = 0" using seg1 bo
      by (metis ColumnSegment.select_convs(2) ColumnSegment.surjective
          ColumnSegment.update_convs(1,3,5))
    have ss1: "segment_size ?seg' = ?B" using seg1 ss
      by (metis ColumnSegment.select_convs(4) ColumnSegment.surjective
          ColumnSegment.update_convs(1,3,5))
    have fr: "memread (buffer ?seg') p k = memread ?buf p k"
      if "(DICTIONARY_HEADER_SIZE \<le> p \<and> p + k \<le> DICTIONARY_HEADER_SIZE + 4 * ?n)
            \<or> ?B - ?used \<le> p" for p k
    proof -
      have a: "(DICTIONARY_HEADER_SIZE \<le> p \<and> p + k \<le> DICTIONARY_HEADER_SIZE + 4 * ?n)
             \<or> DICTIONARY_HEADER_SIZE + 4 * (?n + 1) \<le> p"
        proof (insert that, elim disjE conjE)
        assume "DICTIONARY_HEADER_SIZE \<le> p" "p + k \<le> DICTIONARY_HEADER_SIZE + 4 * ?n"
        then show ?thesis by simp
      next
        assume "?B - ?used \<le> p"
        then have "DICTIONARY_HEADER_SIZE + 4 * (?n + 1) \<le> p" using poslow posle by simp
        then show ?thesis by simp
      qed
      have b: "p + k \<le> ?pos \<or> ?pos + BIG_STRING_MARKER_SIZE \<le> p"
        proof (insert that, elim disjE conjE)
        assume "DICTIONARY_HEADER_SIZE \<le> p" "p + k \<le> DICTIONARY_HEADER_SIZE + 4 * ?n"
        then have "p + k \<le> ?pos" using poslow by simp
        then show ?thesis by simp
      next
        assume "?B - ?used \<le> p"
        then have "?pos + ?req \<le> p" using posle by simp
        then show ?thesis using rq by simp
      qed
      have "memread h3 p k = memread h1 p k" using fr3 a by blast
      also have "\<dots> = memread ?buf p k" using b by (rule WriteStringMarker_other [OF h1])
      finally show ?thesis by simp
    qed
    have ov: "overflow_string_at cfg bm' (segment_state ?seg') b off u"
      if "overflow_string_at cfg bm (segment_state segment) b off u" for b off u
      using oold that by simp
    have old: "\<forall>i < ?n. row_stored cfg bm' ?seg' ?B (vs @ [v]) i"
    proof (rule rows_preserved [OF rows fr bo bo1 ov])
      show "overflow_writer (segment_state ?seg') = None
              \<longleftrightarrow> overflow_writer (segment_state segment) = None"
        using ow by simp
    qed
    from onew have br: "- (2 ^ 63) \<le> block" "block < 2 ^ 63" and offr: "offset < 2 ^ 31"
      and "0 \<le> offset"
      unfolding overflow_string_at_def memory_string_at_def disk_string_at_def by auto
    then have offl: "- (2 ^ 31) \<le> offset" by simp
    have "ReadStringMarker h3 ?pos = ReadStringMarker h1 ?pos"
    proof (rule ReadStringMarker_cong)
      fix q k assume "?pos \<le> q"
      then show "memread h3 q k = memread h1 q k" using fr3 poslow by auto
    qed
    then have m: "ReadStringMarker h3 ?pos = Some (block, offset)"
      using ReadStringMarker_WriteStringMarker(3) [OF h1 br offl offr] by simp
    have new: "row_stored cfg bm' ?seg' ?B (vs @ [v]) ?n"
      unfolding row_stored_def tk used'
      using True ld3 m cap' bo1 onew tier ow
      by (simp add: offset_entry_def base_data_def used')
    have all: "\<forall>i < length (vs @ [v]). row_stored cfg bm' ?seg' ?B (vs @ [v]) i"
      using old new by (simp add: less_Suc_eq)
    have gd': "GetDictionary ?seg' h3 = Some \<lparr>dictionary_size = ?new, dictionary_end = ?B\<rparr>"
      using gd3 bo bo1 by (simp add: GetDictionary_def)
    have inv': "segment_inv cfg bm' ?seg' (vs @ [v])"
      unfolding segment_inv_def used'
      using bo1 l3 ss1 gd' cap' all oinv' by simp
    show ?thesis
      apply (rule exI [of _ bm'], rule exI [of _ ?seg'])
      using res inv' tid free ow by simp
  qed
qed

lemma used_space_append:
  "used_space cfg (vs @ ws) = used_space cfg vs + used_space cfg ws"
  by (simp add: used_space_def)

lemma used_space_Cons:
  "used_space cfg (v # ws) = required_space cfg v + used_space cfg ws"
  by (simp add: used_space_def)

lemma StringInitSegment_inv:
  assumes fresh: "block_offset fresh = 0" "count fresh = 0"
      "length (buffer fresh) = block_size cfg" "segment_size fresh = block_size cfg"
    and B: "DICTIONARY_HEADER_SIZE \<le> block_size cfg" "block_size cfg < 2 ^ 31"
    and bm: "MAXIMUM_BLOCK cfg \<le> temporary_id bm" "INVALID_BLOCK cfg < free_block_id bm"
      "free_block_id bm \<le> MAXIMUM_BLOCK cfg"
    and ow: "\<forall>w. ow = Some w \<longrightarrow> w_block_id w = INVALID_BLOCK cfg"
  shows "\<exists>seg0. StringInitSegment cfg fresh (INVALID_BLOCK cfg) None = Some seg0
           \<and> segment_inv cfg bm
               (seg0\<lparr>segment_state := (segment_state seg0)\<lparr>overflow_writer := ow\<rparr>\<rparr>) []"
proof -
  let ?d = "\<lparr>dictionary_size = 0, dictionary_end = block_size cfg\<rparr>"
  have c: "UnsafeNumericCast_uint32 (int (segment_size fresh)) = block_size cfg"
    using fresh B by (simp add: UnsafeNumericCast_uint32_id)
  have "block_offset fresh + 8 \<le> length (buffer fresh)"
    using fresh B by (simp add: DICTIONARY_HEADER_SIZE_def)
  then obtain h where h: "SetDictionary fresh (buffer fresh) ?d = Some h"
    using SetDictionary_Some by blast
  let ?st = "\<lparr>head = [], overflow_blocks = Map.empty, on_disk_blocks = [],
               overflow_writer = None\<rparr>"
  let ?ini = "fresh\<lparr>buffer := h, segment_state := ?st\<rparr>"
  let ?seg = "?ini\<lparr>segment_state := (segment_state ?ini)\<lparr>overflow_writer := ow\<rparr>\<rparr>"
  have res: "StringInitSegment cfg fresh (INVALID_BLOCK cfg) None = Some ?ini"
    unfolding StringInitSegment_def using h c by (simp add: Let_def)
  have bo: "block_offset ?seg = block_offset fresh" by simp
  have r: "dictionary_size ?d < 2 ^ 32" "dictionary_end ?d < 2 ^ 32" using B by simp_all
  have gd: "GetDictionary ?seg h = Some ?d" and lh: "length h = length (buffer fresh)"
    using SetDictionary_props(1,3) [OF h r bo] by simp_all
  have oi: "overflow_inv cfg bm (segment_state ?seg)"
    unfolding overflow_inv_def memory_inv_def disk_inv_def
    using bm ow by simp
  have "segment_inv cfg bm ?seg []"
    unfolding segment_inv_def
    using fresh B gd lh oi by (simp add: used_space_def)
  with res show ?thesis by blast
qed

lemma append_all_inv:
  assumes "segment_inv cfg bm segment vs"
    and "DICTIONARY_HEADER_SIZE + 4 * (length vs + length ws) + used_space cfg (vs @ ws)
           \<le> block_size cfg"
    and "block_size cfg < 2 ^ 31"
    and "- (2 ^ 63) \<le> INVALID_BLOCK cfg"
    and "temporary_id bm + int (length ws) \<le> 2 ^ 63"
    and "free_block_id bm + sum_list (map (\<lambda>v. 1 + int (length v)) ws) \<le> MAXIMUM_BLOCK cfg"
    and "\<forall>v \<in> set ws. length v + 4 < 2 ^ 31"
  shows "\<exists>bm' segment'.
           append_all cfg bm segment ws = Some (bm', segment')
         \<and> segment_inv cfg bm' segment' (vs @ ws)
         \<and> (overflow_writer (segment_state segment') = None
               \<longleftrightarrow> overflow_writer (segment_state segment) = None)"
  using assms
proof (induction ws arbitrary: bm segment vs)
  case Nil
  then show ?case by simp
next
  case (Cons v ws)
  have nn: "0 \<le> sum_list (map (\<lambda>v. 1 + int (length v)) ws)"
    by (rule sum_list_nonneg) auto
  have cap: "DICTIONARY_HEADER_SIZE + 4 * (length vs + 1) + used_space cfg vs
               + required_space cfg v \<le> block_size cfg"
    using Cons.prems(2) by (simp add: used_space_append used_space_Cons)
  have t: "temporary_id bm < 2 ^ 63" using Cons.prems(5) by simp
  have f: "free_block_id bm + 1 + int (length v) \<le> MAXIMUM_BLOCK cfg"
    using Cons.prems(6) nn by simp
  have l: "length v + 4 < 2 ^ 31" using Cons.prems(7) by simp
  from StringAppend_inv [OF Cons.prems(1) cap Cons.prems(3,4) t f l]
  obtain bm1 seg1 where
    a: "StringAppend cfg bm segment v = Some (bm1, seg1)"
    and inv1: "segment_inv cfg bm1 seg1 (vs @ [v])"
    and t1: "temporary_id bm1 \<le> temporary_id bm + 1"
    and f1: "free_block_id bm1 \<le> free_block_id bm + 1 + int (length v)"
    and w1: "overflow_writer (segment_state seg1) = None
               \<longleftrightarrow> overflow_writer (segment_state segment) = None"
    by (elim exE conjE) (rule that, assumption+)
  have cap1: "DICTIONARY_HEADER_SIZE + 4 * (length (vs @ [v]) + length ws)
                + used_space cfg ((vs @ [v]) @ ws) \<le> block_size cfg"
    using Cons.prems(2) by simp
  have t2: "temporary_id bm1 + int (length ws) \<le> 2 ^ 63" using Cons.prems(5) t1 by simp
  have f2: "free_block_id bm1 + sum_list (map (\<lambda>v. 1 + int (length v)) ws)
              \<le> MAXIMUM_BLOCK cfg"
    using Cons.prems(6) f1 by simp
  have l2: "\<forall>v \<in> set ws. length v + 4 < 2 ^ 31" using Cons.prems(7) by simp
  from Cons.IH [OF inv1 cap1 Cons.prems(3,4) t2 f2 l2]
  obtain bm' seg' where
    b: "append_all cfg bm1 seg1 ws = Some (bm', seg')"
    and inv': "segment_inv cfg bm' seg' ((vs @ [v]) @ ws)"
    and w': "overflow_writer (segment_state seg') = None
               \<longleftrightarrow> overflow_writer (segment_state seg1) = None"
    by (elim exE conjE) (rule that, assumption+)
  have "append_all cfg bm segment (v # ws) = Some (bm', seg')" using a b by simp
  moreover have "segment_inv cfg bm' seg' (vs @ v # ws)" using inv' by simp
  ultimately show ?case using w' w1 by simp
qed

lemma row_stored_inline:
  assumes rows: "\<forall>j \<le> i. row_stored cfg bm segment dict_end vs j"
    and i: "i < length vs"
  shows "\<exists>cur prev.
           base_data segment (buffer segment) i = Some cur
         \<and> offset_before segment i = Some prev
         \<and> (0 \<le> cur \<longleftrightarrow> length (vs ! i) < string_block_limit cfg)
         \<and> (0 \<le> cur \<longrightarrow>
               \<bar>cur\<bar> - \<bar>prev\<bar> = int (length (vs ! i))
             \<and> ReadString (buffer segment) (nat (int dict_end - \<bar>cur\<bar>)) (length (vs ! i))
                 = Some (vs ! i))"
proof -
  let ?c1 = "used_space cfg (take (Suc i) vs)" and ?c0 = "used_space cfg (take i vs)"
  let ?v = "vs ! i"
  let ?cur = "offset_entry cfg vs i"
  let ?prev = "if i = 0 then 0 else offset_entry cfg vs (i - 1)"
  from rows have row: "row_stored cfg bm segment dict_end vs i" by simp
  then have cur: "base_data segment (buffer segment) i = Some ?cur"
    and le: "?c1 \<le> dict_end"
    unfolding row_stored_def by simp_all
  have prev: "offset_before segment i = Some ?prev"
  proof (cases i)
    case 0
    then show ?thesis by (simp add: offset_before_def)
  next
    case (Suc k)
    with rows have "row_stored cfg bm segment dict_end vs k" by simp
    then show ?thesis using Suc by (simp add: offset_before_def row_stored_def)
  qed
  have pabs: "\<bar>?prev\<bar> = int ?c0"
    by (cases i) (simp_all add: offset_entry_abs used_space_def)
  have cabs: "\<bar>?cur\<bar> = int ?c1" by (rule offset_entry_abs)
  have c01: "?c1 = ?c0 + required_space cfg ?v" using i by (rule used_space_take_Suc)
  have sign: "0 \<le> ?cur \<longleftrightarrow> length ?v < string_block_limit cfg"
  proof (cases "string_block_limit cfg \<le> length ?v")
    case True
    then have "required_space cfg ?v = BIG_STRING_MARKER_SIZE" by (rule required_space_marker)
    then have "0 < ?c1" using c01 by (simp add: BIG_STRING_MARKER_SIZE_def sizeof_block_id_t_def)
    then show ?thesis using True by (simp add: offset_entry_def)
  next
    case False
    then show ?thesis by (simp add: offset_entry_def)
  qed
  have inl: "\<bar>?cur\<bar> - \<bar>?prev\<bar> = int (length ?v)
             \<and> ReadString (buffer segment) (nat (int dict_end - \<bar>?cur\<bar>)) (length ?v) = Some ?v"
    if "0 \<le> ?cur"
  proof -
    from that sign have small: "\<not> string_block_limit cfg \<le> length ?v" by simp
    then have rq: "required_space cfg ?v = length ?v" by (rule required_space_inline)
    from row small have rd: "memread (buffer segment) (dict_end - ?c1) (length ?v) = Some ?v"
      unfolding row_stored_def by simp
    have "nat (int dict_end - \<bar>?cur\<bar>) = dict_end - ?c1" unfolding cabs using le by simp
    then show ?thesis
      unfolding pabs cabs using c01 rq rd by (simp add: ReadString_def)
  qed
  show ?thesis using cur prev sign inl by blast
qed

lemma memread_moved:
  assumes r: "memread mem src n = Some moved" and c: "memcpy mem dst moved = Some mem'"
    and qk: "q + k \<le> n"
  shows "memread mem' (dst + q) k = memread mem (src + q) k"
proof -
  from r have sl: "src + n \<le> length mem" and mv: "moved = take n (drop src mem)"
    by (auto simp: memread_def split: if_splits)
  have ln: "length moved = n" using mv sl by simp
  from c have dl: "dst + n \<le> length mem"
    and eq: "mem' = take dst mem @ moved @ drop (dst + n) mem"
    using ln by (auto simp: memcpy_def split: if_splits)
  have lm: "length mem' = length mem" using c by (rule memcpy_length)
  have 1: "drop (dst + q) mem' = drop q moved @ drop (dst + n) mem"
    unfolding eq using dl ln qk by simp
  have 2: "take k (drop (dst + q) mem') = take k (drop q moved)"
    unfolding 1 using ln qk by simp
  have 3: "drop q moved = take (n - q) (drop (src + q) mem)"
    unfolding mv by (simp add: drop_take add.commute)
  have 4: "take k (drop q moved) = take k (drop (src + q) mem)"
    unfolding 3 using qk by (simp add: min_def)
  show ?thesis
    unfolding memread_def lm using 2 4 sl dl qk by simp
qed

lemma ReadStringMarker_moved:
  assumes "\<And>q k. q + k \<le> BIG_STRING_MARKER_SIZE \<Longrightarrow>
             memread h' (p' + q) k = memread h (p + q) k"
  shows "ReadStringMarker h' p' = ReadStringMarker h p"
proof -
  have 1: "memread h' p' 8 = memread h p 8"
    using assms [of 0 8] by (simp add: BIG_STRING_MARKER_SIZE_def sizeof_block_id_t_def)
  have 2: "memread h' (p' + 8) 4 = memread h (p + 8) 4"
    using assms [of 8 4] by (simp add: BIG_STRING_MARKER_SIZE_def sizeof_block_id_t_def)
  show ?thesis
    using 1 2
    by (simp add: ReadStringMarker_def Load_block_id_def Load_int32_def sizeof_block_id_t_def)
qed

lemma FinalizeAppend_compacts:
  assumes inv: "segment_inv cfg bm segment vs"
    and small: "DICTIONARY_HEADER_SIZE + 4 * length vs + used_space cfg vs
                  < compaction_flush_limit cfg"
    and B: "block_size cfg < 2 ^ 31"
  shows "\<exists>h. FinalizeAppend cfg segment
               = Some (DICTIONARY_HEADER_SIZE + 4 * length vs + used_space cfg vs,
                       segment\<lparr>buffer := h\<rparr>)
           \<and> length h = block_size cfg
           \<and> GetDictionary segment h
               = Some \<lparr>dictionary_size = used_space cfg vs,
                        dictionary_end = DICTIONARY_HEADER_SIZE + 4 * length vs
                          + used_space cfg vs\<rparr>
           \<and> (\<forall>i < length vs.
                  row_stored cfg bm (segment\<lparr>buffer := h\<rparr>)
                    (DICTIONARY_HEADER_SIZE + 4 * length vs + used_space cfg vs) vs i)"
proof -
  let ?n = "length vs" and ?buf = "buffer segment" and ?B = "block_size cfg"
  let ?used = "used_space cfg vs"
  let ?os = "DICTIONARY_HEADER_SIZE + 4 * ?n"
  let ?total = "?os + ?used"
  from inv have bo: "block_offset segment = 0" and lb: "length ?buf = ?B"
    and ss: "segment_size segment = ?B" and cnt: "count segment = ?n"
    and gd: "GetDictionary segment ?buf
               = Some \<lparr>dictionary_size = ?used, dictionary_end = ?B\<rparr>"
    and cap: "?total \<le> ?B"
    and rows: "\<forall>i < ?n. row_stored cfg bm segment ?B vs i"
    unfolding segment_inv_def by simp_all
  have ule: "?used \<le> ?B" using cap by simp
  have "?B - ?used + ?used \<le> length ?buf" using ule lb by simp
  then obtain moved where mv: "memread ?buf (?B - ?used) ?used = Some moved"
    by (simp add: memread_def)
  have lmv: "length moved = ?used" using mv memread_Some by blast
  have "?os + length moved \<le> length ?buf" using cap lb lmv by simp
  then obtain h1 where h1: "memcpy ?buf ?os moved = Some h1" using memcpy_Some by blast
  have l1: "length h1 = ?B" using h1 lb memcpy_length by fastforce
  let ?d = "\<lparr>dictionary_size = ?used, dictionary_end = ?total\<rparr>"
  have "block_offset segment + 8 \<le> length h1"
    using cap l1 bo by (simp add: DICTIONARY_HEADER_SIZE_def)
  then obtain h2 where h2: "SetDictionary segment h1 ?d = Some h2"
    using SetDictionary_Some by blast
  have r: "dictionary_size ?d < 2 ^ 32" "dictionary_end ?d < 2 ^ 32" using cap B by simp_all
  have gd2: "GetDictionary segment h2 = Some ?d" and l2: "length h2 = length h1"
    and fr2: "\<And>p k. p + k \<le> block_offset segment \<or> block_offset segment + 8 \<le> p \<Longrightarrow>
                memread h2 p k = memread h1 p k"
    using SetDictionary_props(1,3,4) [OF h2 r refl] by blast+
  have ma: "nat ((int ?B - int ?total) mod 2 ^ 64) = ?B - ?total"
  proof -
    have "0 \<le> int ?B - int ?total" using cap by simp
    moreover have "int ?B - int ?total < 2 ^ 64" using B by simp
    ultimately have "(int ?B - int ?total) mod 2 ^ 64 = int ?B - int ?total" by simp
    then show ?thesis using cap by simp
  qed
  have e: "int ?B - int (?B - ?total) = int ?total" using cap by simp
  have de: "UnsafeNumericCast_uint32 (int ?B - int (?B - ?total)) = ?total"
    unfolding e by (rule UnsafeNumericCast_uint32_id) (use cap B in simp)
  have nf: "\<not> compaction_flush_limit cfg \<le> ?total" using small by simp
  have res: "FinalizeAppend cfg segment = Some (?total, segment\<lparr>buffer := h2\<rparr>)"
    unfolding FinalizeAppend_def
    using gd nf ule mv h1 h2 cnt ss ma de by (simp add: Let_def mult.commute)
  let ?seg' = "segment\<lparr>buffer := h2\<rparr>"
  have row: "row_stored cfg bm ?seg' ?total vs i" if i: "i < ?n" for i
  proof -
    let ?c = "used_space cfg (take (Suc i) vs)"
    let ?v = "vs ! i"
    from rows i have old: "row_stored cfg bm segment ?B vs i" by simp
    have cle: "?c \<le> ?used" by (rule used_space_take_le)
    have rqle: "required_space cfg ?v \<le> ?c" using used_space_take_Suc [OF i, of cfg] by simp
    have e1: "memread h2 (DICTIONARY_HEADER_SIZE + 4 * i) 4
                = memread h1 (DICTIONARY_HEADER_SIZE + 4 * i) 4"
      by (rule fr2) (simp add: bo DICTIONARY_HEADER_SIZE_def)
    have e2: "memread h1 (DICTIONARY_HEADER_SIZE + 4 * i) 4
                = memread ?buf (DICTIONARY_HEADER_SIZE + 4 * i) 4"
      by (rule memread_memcpy_other [OF h1]) (use i in simp)
    have bd: "base_data ?seg' (buffer ?seg') i = base_data segment ?buf i"
      unfolding base_data_def using e1 e2 bo by (simp add: Load_int32_def)
    have pos': "?total - ?c = ?os + (?used - ?c)" using cle by simp
    have pos: "?B - ?c = ?B - ?used + (?used - ?c)" using cle ule by simp
    have mvd: "memread h2 (?total - ?c + q) k = memread ?buf (?B - ?c + q) k"
      if "q + k \<le> required_space cfg ?v" for q k
    proof -
      have ge: "block_offset segment + 8 \<le> ?total - ?c + q"
        unfolding pos' bo by (simp add: DICTIONARY_HEADER_SIZE_def)
      have "memread h2 (?total - ?c + q) k = memread h1 (?total - ?c + q) k"
        by (rule fr2, rule disjI2, rule ge)
      also have "\<dots> = memread h1 (?os + (?used - ?c + q)) k"
        unfolding pos' by (simp only: add.assoc)
      also have "\<dots> = memread ?buf (?B - ?used + (?used - ?c + q)) k"
        by (rule memread_moved [OF mv h1]) (use that rqle cle in simp)
      also have "\<dots> = memread ?buf (?B - ?c + q) k"
        unfolding pos by (simp only: add.assoc)
      finally show ?thesis .
    qed
    show ?thesis
    proof (cases "string_block_limit cfg \<le> length ?v")
      case False
      have rq: "required_space cfg ?v = length ?v" using False by (rule required_space_inline)
      have "memread h2 (?total - ?c) (length ?v) = memread ?buf (?B - ?c) (length ?v)"
        using mvd [of 0 "length ?v"] rq by simp
      then show ?thesis
        using old False cle unfolding row_stored_def bd by simp
    next
      case True
      have rq: "required_space cfg ?v = BIG_STRING_MARKER_SIZE"
        using True by (rule required_space_marker)
      have "ReadStringMarker h2 (?total - ?c) = ReadStringMarker ?buf (?B - ?c)"
        by (rule ReadStringMarker_moved) (simp add: mvd rq)
      then show ?thesis
        using old True cle unfolding row_stored_def bd by simp
    qed
  qed
  have "length h2 = ?B" using l1 l2 by simp
  with res gd2 row show ?thesis by blast
qed

lemma appended_segment:
  assumes fresh: "block_offset fresh = 0" "count fresh = 0"
      "length (buffer fresh) = block_size cfg" "segment_size fresh = block_size cfg"
    and B: "block_size cfg < 2 ^ 31"
    and ids: "- (2 ^ 63) \<le> INVALID_BLOCK cfg" "INVALID_BLOCK cfg < free_block_id bm"
      "free_block_id bm + sum_list (map (\<lambda>v. 1 + int (length v)) vs) \<le> MAXIMUM_BLOCK cfg"
      "MAXIMUM_BLOCK cfg \<le> temporary_id bm" "temporary_id bm + int (length vs) \<le> 2 ^ 63"
    and ow: "\<forall>w. ow = Some w \<longrightarrow> w_block_id w = INVALID_BLOCK cfg"
    and cap: "DICTIONARY_HEADER_SIZE + 4 * length vs + used_space cfg vs \<le> block_size cfg"
    and len: "\<forall>v \<in> set vs. length v + 4 < 2 ^ 31"
  shows "\<exists>seg0 bm' seg'.
           StringInitSegment cfg fresh (INVALID_BLOCK cfg) None = Some seg0
         \<and> append_all cfg bm
               (seg0\<lparr>segment_state := (segment_state seg0)\<lparr>overflow_writer := ow\<rparr>\<rparr>) vs
             = Some (bm', seg')
         \<and> segment_inv cfg bm' seg' vs
         \<and> (overflow_writer (segment_state seg') = None \<longleftrightarrow> ow = None)"
proof -
  have nn: "0 \<le> sum_list (map (\<lambda>v. 1 + int (length v)) vs)"
    by (rule sum_list_nonneg) auto
  have H: "DICTIONARY_HEADER_SIZE \<le> block_size cfg" using cap by simp
  have f: "free_block_id bm \<le> MAXIMUM_BLOCK cfg" using ids(3) nn by simp
  from StringInitSegment_inv [OF fresh H B ids(4,2) f ow] obtain seg0 where
    i: "StringInitSegment cfg fresh (INVALID_BLOCK cfg) None = Some seg0"
    and inv0: "segment_inv cfg bm
                 (seg0\<lparr>segment_state := (segment_state seg0)\<lparr>overflow_writer := ow\<rparr>\<rparr>) []"
    by blast
  let ?att = "seg0\<lparr>segment_state := (segment_state seg0)\<lparr>overflow_writer := ow\<rparr>\<rparr>"
  have cap0: "DICTIONARY_HEADER_SIZE + 4 * (length ([] :: string_t list) + length vs)
                + used_space cfg ([] @ vs) \<le> block_size cfg"
    using cap by simp
  from append_all_inv [OF inv0 cap0 B ids(1,5,3) len] obtain bm' seg' where
    a: "append_all cfg bm ?att vs = Some (bm', seg')"
    and inv: "segment_inv cfg bm' seg' ([] @ vs)"
    and w: "overflow_writer (segment_state seg') = None
              \<longleftrightarrow> overflow_writer (segment_state ?att) = None"
    by (elim exE conjE) (rule that, assumption+)
  have "segment_inv cfg bm' seg' vs" using inv by simp
  moreover have "overflow_writer (segment_state seg') = None \<longleftrightarrow> ow = None" using w by simp
  ultimately show ?thesis using i a by (intro exI conjI) assumption+
qed

text \<open>
  Claim C1. A segment is initialised on a fresh block, with or without an overflow
  writer, and the values \<open>vs\<close> are appended, none exceeding the remaining capacity of
  the block (the header, the offset array and the dictionary fit the block). Then the
  scan of rows \<open>0..length vs\<close> with result offset 0 returns \<open>vs\<close> in order. The offset
  entry of a row is non-negative exactly when the value is below the overflow
  threshold; then the length of the value is the difference of the magnitudes of the
  entry and of the entry before it (0 for the first row), and the value is read inline
  from the dictionary, at the magnitude of the entry below the end of the dictionary.
\<close>

theorem C1_scan_returns_appended:
  assumes fresh: "block_offset fresh = 0" "count fresh = 0"
      "length (buffer fresh) = block_size cfg" "segment_size fresh = block_size cfg"
    and B: "block_size cfg < 2 ^ 31"
    and ids: "- (2 ^ 63) \<le> INVALID_BLOCK cfg" "INVALID_BLOCK cfg < free_block_id bm"
      "free_block_id bm + sum_list (map (\<lambda>v. 1 + int (length v)) vs) \<le> MAXIMUM_BLOCK cfg"
      "MAXIMUM_BLOCK cfg \<le> temporary_id bm" "temporary_id bm + int (length vs) \<le> 2 ^ 63"
    and ow: "\<forall>w. ow = Some w \<longrightarrow> w_block_id w = INVALID_BLOCK cfg"
    and cap: "DICTIONARY_HEADER_SIZE + 4 * length vs + used_space cfg vs \<le> block_size cfg"
    and len: "\<forall>v \<in> set vs. length v + 4 < 2 ^ 31"
    and room: "length vs \<le> length (data result)"
  shows "\<exists>seg0 bm' seg' scanned.
           StringInitSegment cfg fresh (INVALID_BLOCK cfg) None = Some seg0
         \<and> append_all cfg bm
               (seg0\<lparr>segment_state := (segment_state seg0)\<lparr>overflow_writer := ow\<rparr>\<rparr>) vs
             = Some (bm', seg')
         \<and> StringScan cfg bm' seg' 0 (length vs) result = Some scanned
         \<and> take (length vs) (data scanned) = vs
         \<and> (\<forall>i < length vs. \<exists>cur prev.
                base_data seg' (buffer seg') i = Some cur
              \<and> offset_before seg' i = Some prev
              \<and> (0 \<le> cur \<longleftrightarrow> length (vs ! i) < string_block_limit cfg)
              \<and> (0 \<le> cur \<longrightarrow>
                    \<bar>cur\<bar> - \<bar>prev\<bar> = int (length (vs ! i))
                  \<and> ReadString (buffer seg') (nat (int (block_size cfg) - \<bar>cur\<bar>))
                      (length (vs ! i)) = Some (vs ! i)))"
proof -
  from appended_segment [OF fresh B ids ow cap len] obtain seg0 bm' seg' where
    i: "StringInitSegment cfg fresh (INVALID_BLOCK cfg) None = Some seg0"
    and a: "append_all cfg bm
               (seg0\<lparr>segment_state := (segment_state seg0)\<lparr>overflow_writer := ow\<rparr>\<rparr>) vs
             = Some (bm', seg')"
    and inv: "segment_inv cfg bm' seg' vs"
    by (elim exE conjE) (rule that, assumption+)
  from inv have bo: "block_offset seg' = 0"
    and gd: "GetDictionary seg' (buffer seg')
               = Some \<lparr>dictionary_size = used_space cfg vs, dictionary_end = block_size cfg\<rparr>"
    and rows: "\<forall>i < length vs. row_stored cfg bm' seg' (block_size cfg) vs i"
    unfolding segment_inv_def by simp_all
  have de: "GetDictionaryEnd seg' (buffer seg') = Some (block_size cfg)"
    using GetDictionary_End [OF gd] by simp
  from rows_stored_scan [OF rows de B bo B room] obtain scanned where
    s: "StringScan cfg bm' seg' 0 (length vs) result = Some scanned"
    and d: "data scanned = vs @ drop (length vs) (data result)" by blast
  have t: "take (length vs) (data scanned) = vs" using d by simp
  have r: "\<forall>i < length vs. \<exists>cur prev.
                base_data seg' (buffer seg') i = Some cur
              \<and> offset_before seg' i = Some prev
              \<and> (0 \<le> cur \<longleftrightarrow> length (vs ! i) < string_block_limit cfg)
              \<and> (0 \<le> cur \<longrightarrow>
                    \<bar>cur\<bar> - \<bar>prev\<bar> = int (length (vs ! i))
                  \<and> ReadString (buffer seg') (nat (int (block_size cfg) - \<bar>cur\<bar>))
                      (length (vs ! i)) = Some (vs ! i))"
  proof (intro allI impI)
    fix i assume i: "i < length vs"
    then have "\<forall>j \<le> i. row_stored cfg bm' seg' (block_size cfg) vs j" using rows by simp
    then show "\<exists>cur prev.
                base_data seg' (buffer seg') i = Some cur
              \<and> offset_before seg' i = Some prev
              \<and> (0 \<le> cur \<longleftrightarrow> length (vs ! i) < string_block_limit cfg)
              \<and> (0 \<le> cur \<longrightarrow>
                    \<bar>cur\<bar> - \<bar>prev\<bar> = int (length (vs ! i))
                  \<and> ReadString (buffer seg') (nat (int (block_size cfg) - \<bar>cur\<bar>))
                      (length (vs ! i)) = Some (vs ! i))"
      using i by (rule row_stored_inline)
  qed
  from i a s t r show ?thesis by (intro exI conjI) assumption+
qed

theorem C1_scan_returns_appended_witness:
  "\<exists>seg0 bm' seg' scanned.
     StringInitSegment example_config (example_segment []) (INVALID_BLOCK example_config) None
       = Some seg0
   \<and> append_all example_config example_bm
         (seg0\<lparr>segment_state := (segment_state seg0)\<lparr>overflow_writer := None\<rparr>\<rparr>) example_values
       = Some (bm', seg')
   \<and> StringScan example_config bm' seg' 0 (length example_values) (example_vector 2)
       = Some scanned
   \<and> take (length example_values) (data scanned) = example_values"
proof -
  have fresh: "block_offset (example_segment []) = 0" "count (example_segment []) = 0"
      "length (buffer (example_segment [])) = block_size example_config"
      "segment_size (example_segment []) = block_size example_config"
    by (simp_all add: example_segment_def example_config_def)
  have B: "block_size example_config < 2 ^ 31" by (simp add: example_config_def)
  have ids: "- (2 ^ 63) \<le> INVALID_BLOCK example_config"
      "INVALID_BLOCK example_config < free_block_id example_bm"
      "free_block_id example_bm + sum_list (map (\<lambda>v. 1 + int (length v)) example_values)
         \<le> MAXIMUM_BLOCK example_config"
      "MAXIMUM_BLOCK example_config \<le> temporary_id example_bm"
      "temporary_id example_bm + int (length example_values) \<le> 2 ^ 63"
    by (simp_all add: example_config_def example_bm_def example_values_def)
  have ow: "\<forall>w. None = Some w \<longrightarrow> w_block_id w = INVALID_BLOCK example_config" by simp
  have cap: "DICTIONARY_HEADER_SIZE + 4 * length example_values
               + used_space example_config example_values \<le> block_size example_config"
    by (simp add: example_config_def example_values_def used_space_def required_space_def
        DICTIONARY_HEADER_SIZE_def BIG_STRING_MARKER_SIZE_def sizeof_block_id_t_def)
  have len: "\<forall>v \<in> set example_values. length v + 4 < 2 ^ 31"
    by (simp add: example_values_def)
  have room: "length example_values \<le> length (data (example_vector 2))"
    by (simp add: example_values_def example_vector_def)
  from C1_scan_returns_appended [OF fresh B ids ow cap len room]
  obtain seg0 bm' seg' scanned where
    "StringInitSegment example_config (example_segment []) (INVALID_BLOCK example_config) None
       = Some seg0"
    "append_all example_config example_bm
         (seg0\<lparr>segment_state := (segment_state seg0)\<lparr>overflow_writer := None\<rparr>\<rparr>) example_values
       = Some (bm', seg')"
    "StringScan example_config bm' seg' 0 (length example_values) (example_vector 2)
       = Some scanned"
    "take (length example_values) (data scanned) = example_values"
    by (elim exE conjE) (rule that, assumption+)
  then show ?thesis by (intro exI conjI) assumption+
qed

text \<open>
  Claim C2. A segment is initialised on a fresh block, with or without an overflow
  writer, and the values \<open>vs\<close> are appended within the capacity of the block. For every
  row whose value is at or above the overflow threshold the offset entry is negative,
  the dictionary holds a marker at the magnitude of the entry below the end of the
  dictionary, and \<^verbatim>\<open>ReadOverflowString\<close> at the marker returns the value unchanged. The
  marker names a durable block exactly when an overflow writer is attached: then the
  value is read along the chain of durable blocks, whatever its length.
\<close>

theorem C2_overflow_roundtrip:
  assumes fresh: "block_offset fresh = 0" "count fresh = 0"
      "length (buffer fresh) = block_size cfg" "segment_size fresh = block_size cfg"
    and B: "block_size cfg < 2 ^ 31"
    and ids: "- (2 ^ 63) \<le> INVALID_BLOCK cfg" "INVALID_BLOCK cfg < free_block_id bm"
      "free_block_id bm + sum_list (map (\<lambda>v. 1 + int (length v)) vs) \<le> MAXIMUM_BLOCK cfg"
      "MAXIMUM_BLOCK cfg \<le> temporary_id bm" "temporary_id bm + int (length vs) \<le> 2 ^ 63"
    and ow: "\<forall>w. ow = Some w \<longrightarrow> w_block_id w = INVALID_BLOCK cfg"
    and cap: "DICTIONARY_HEADER_SIZE + 4 * length vs + used_space cfg vs \<le> block_size cfg"
    and len: "\<forall>v \<in> set vs. length v + 4 < 2 ^ 31"
    and i: "i < length vs"
    and big: "string_block_limit cfg \<le> length (vs ! i)"
  shows "\<exists>seg0 bm' seg' entry block offset result'.
           StringInitSegment cfg fresh (INVALID_BLOCK cfg) None = Some seg0
         \<and> append_all cfg bm
               (seg0\<lparr>segment_state := (segment_state seg0)\<lparr>overflow_writer := ow\<rparr>\<rparr>) vs
             = Some (bm', seg')
         \<and> base_data seg' (buffer seg') i = Some entry
         \<and> entry < 0
         \<and> ReadStringMarker (buffer seg') (nat (int (block_size cfg) - \<bar>entry\<bar>))
             = Some (block, offset)
         \<and> (block < MAXIMUM_BLOCK cfg \<longleftrightarrow> ow \<noteq> None)
         \<and> ReadOverflowString cfg bm' seg' result block offset = Some (vs ! i, result')"
proof -
  from appended_segment [OF fresh B ids ow cap len] obtain seg0 bm' seg' where
    ini: "StringInitSegment cfg fresh (INVALID_BLOCK cfg) None = Some seg0"
    and a: "append_all cfg bm
               (seg0\<lparr>segment_state := (segment_state seg0)\<lparr>overflow_writer := ow\<rparr>\<rparr>) vs
             = Some (bm', seg')"
    and inv: "segment_inv cfg bm' seg' vs"
    and w: "overflow_writer (segment_state seg') = None \<longleftrightarrow> ow = None"
    by (elim exE conjE) (rule that, assumption+)
  let ?c = "used_space cfg (take (Suc i) vs)"
  from inv i have row: "row_stored cfg bm' seg' (block_size cfg) vs i"
    unfolding segment_inv_def by simp
  from row big obtain block offset where
    e: "base_data seg' (buffer seg') i = Some (offset_entry cfg vs i)"
    and le: "?c \<le> block_size cfg"
    and m: "ReadStringMarker (buffer seg') (block_size cfg - ?c) = Some (block, offset)"
    and o: "overflow_string_at cfg bm' (segment_state seg') block offset (vs ! i)"
    and t: "block < MAXIMUM_BLOCK cfg \<longleftrightarrow> overflow_writer (segment_state seg') \<noteq> None"
    unfolding row_stored_def by auto
  have "required_space cfg (vs ! i) = BIG_STRING_MARKER_SIZE"
    using big by (rule required_space_marker)
  then have "0 < ?c"
    using used_space_take_Suc [OF i, of cfg]
    by (simp add: BIG_STRING_MARKER_SIZE_def sizeof_block_id_t_def)
  then have neg: "offset_entry cfg vs i < 0" using big by (simp add: offset_entry_def)
  have "nat (int (block_size cfg) - \<bar>offset_entry cfg vs i\<bar>) = block_size cfg - ?c"
    unfolding offset_entry_abs using le by simp
  with m have m': "ReadStringMarker (buffer seg')
      (nat (int (block_size cfg) - \<bar>offset_entry cfg vs i\<bar>)) = Some (block, offset)" by simp
  from overflow_string_at_read [OF o B, of result] obtain result' where
    rd: "ReadOverflowString cfg bm' seg' result block offset = Some (vs ! i, result')" by blast
  have t': "block < MAXIMUM_BLOCK cfg \<longleftrightarrow> ow \<noteq> None" using t w by simp
  from ini a e neg m' t' rd show ?thesis by (intro exI conjI) assumption+
qed

theorem C2_overflow_roundtrip_witness:
  "block_size example_config - sizeof_block_id_t < length durable_payload
   \<and> (\<exists>seg0 bm' seg' entry block offset result'.
     StringInitSegment example_config (example_segment []) (INVALID_BLOCK example_config) None
       = Some seg0
   \<and> append_all example_config example_bm
         (seg0\<lparr>segment_state := (segment_state seg0)\<lparr>overflow_writer := Some fresh_writer\<rparr>\<rparr>)
         [durable_payload]
       = Some (bm', seg')
   \<and> base_data seg' (buffer seg') 0 = Some entry
   \<and> entry < 0
   \<and> ReadStringMarker (buffer seg') (nat (int (block_size example_config) - \<bar>entry\<bar>))
       = Some (block, offset)
   \<and> block < MAXIMUM_BLOCK example_config
   \<and> ReadOverflowString example_config bm' seg' (example_vector 1) block offset
       = Some (durable_payload, result'))"
proof -
  have fresh: "block_offset (example_segment []) = 0" "count (example_segment []) = 0"
      "length (buffer (example_segment [])) = block_size example_config"
      "segment_size (example_segment []) = block_size example_config"
    by (simp_all add: example_segment_def example_config_def)
  have B: "block_size example_config < 2 ^ 31" by (simp add: example_config_def)
  have ids: "- (2 ^ 63) \<le> INVALID_BLOCK example_config"
      "INVALID_BLOCK example_config < free_block_id example_bm"
      "free_block_id example_bm + sum_list (map (\<lambda>v. 1 + int (length v)) [durable_payload])
         \<le> MAXIMUM_BLOCK example_config"
      "MAXIMUM_BLOCK example_config \<le> temporary_id example_bm"
      "temporary_id example_bm + int (length [durable_payload]) \<le> 2 ^ 63"
    by (simp_all add: example_config_def example_bm_def durable_payload_def)
  have ow: "\<forall>w. Some fresh_writer = Some w \<longrightarrow> w_block_id w = INVALID_BLOCK example_config"
    by (simp add: fresh_writer_def example_config_def)
  have cap: "DICTIONARY_HEADER_SIZE + 4 * length [durable_payload]
               + used_space example_config [durable_payload] \<le> block_size example_config"
    by (simp add: example_config_def durable_payload_def used_space_def required_space_def
        DICTIONARY_HEADER_SIZE_def BIG_STRING_MARKER_SIZE_def sizeof_block_id_t_def)
  have len: "\<forall>v \<in> set [durable_payload]. length v + 4 < 2 ^ 31"
    by (simp add: durable_payload_def)
  have i: "0 < length [durable_payload]" by simp
  have big: "string_block_limit example_config \<le> length ([durable_payload] ! 0)"
    by (simp add: example_config_def durable_payload_def)
  have long: "block_size example_config - sizeof_block_id_t < length durable_payload"
    by (simp add: example_config_def durable_payload_def sizeof_block_id_t_def)
  from C2_overflow_roundtrip [OF fresh B ids ow cap len i big, of "example_vector 1"]
  obtain seg0 bm' seg' entry block offset result' where
    f1: "StringInitSegment example_config (example_segment []) (INVALID_BLOCK example_config) None
       = Some seg0"
    and f2: "append_all example_config example_bm
         (seg0\<lparr>segment_state := (segment_state seg0)\<lparr>overflow_writer := Some fresh_writer\<rparr>\<rparr>)
         [durable_payload]
       = Some (bm', seg')"
    and f3: "base_data seg' (buffer seg') 0 = Some entry"
    and f4: "entry < 0"
    and f5: "ReadStringMarker (buffer seg') (nat (int (block_size example_config) - \<bar>entry\<bar>))
       = Some (block, offset)"
    and f6: "block < MAXIMUM_BLOCK example_config \<longleftrightarrow> Some fresh_writer \<noteq> None"
    and f7: "ReadOverflowString example_config bm' seg' (example_vector 1) block offset
       = Some ([durable_payload] ! 0, result')"
    by (elim exE conjE) (rule that, assumption+)
  from f6 have g6: "block < MAXIMUM_BLOCK example_config" by simp
  from f7 have g7: "ReadOverflowString example_config bm' seg' (example_vector 1) block offset
       = Some (durable_payload, result')" by simp
  from long f1 f2 f3 f4 f5 g6 g7 show ?thesis by (intro exI conjI) assumption+
qed




text \<open>
  Claim C4. In a segment whose offsets are cumulative (the magnitude of an entry is at
  least that of the entry before it), \<^verbatim>\<open>StringFetchRow\<close> of a row returns the value
  at that position of the scan of the whole segment. For row 0 the previous offset is 0:
  the length of the fetched string is the magnitude of the first entry.
\<close>

theorem C4_fetch_row_agrees_with_scan:
  assumes scan: "StringScan cfg bm segment 0 n result0 = Some scanned"
    and i: "i < n"
    and mono: "\<forall>k<n. \<forall>cur prev. base_data segment (buffer segment) k = Some cur \<longrightarrow>
                 offset_before segment k = Some prev \<longrightarrow> \<bar>prev\<bar> \<le> \<bar>cur\<bar>"
    and idx: "result_idx < length (data result)"
  shows "(\<exists>fetched. StringFetchRow cfg bm segment i result result_idx = Some fetched
            \<and> data fetched ! result_idx = data scanned ! i)
       \<and> (\<exists>dict_end first fetched.
             GetDictionaryEnd segment (buffer segment) = Some dict_end
           \<and> base_data segment (buffer segment) 0 = Some first
           \<and> StringFetchRow cfg bm segment 0 result result_idx = Some fetched
           \<and> fetched_string cfg bm segment dict_end first (nat \<bar>first\<bar>)
               = Some (data fetched ! result_idx))"
proof -
  from StringScan_rows [OF scan] obtain dict_end where
    de: "GetDictionaryEnd segment (buffer segment) = Some dict_end"
    and rows: "\<forall>j<n. j < length (data scanned)
                  \<and> row_string cfg bm segment dict_end j = Some (data scanned ! j)" by blast
  have fetch: "\<exists>r. StringFetchRow cfg bm segment k result result_idx = Some r
           \<and> data r = (data result)[result_idx := data scanned ! k]" if k: "k < n" for k
  proof (rule StringFetchRow_Some [OF de _ _ idx])
    show "row_string cfg bm segment dict_end k = Some (data scanned ! k)"
      using rows k by blast
  next
    fix cur prev
    assume "base_data segment (buffer segment) k = Some cur"
      and "offset_before segment k = Some prev"
    then show "\<bar>prev\<bar> \<le> \<bar>cur\<bar>" using mono k by blast
  qed
  from fetch [OF i] idx have 1: "\<exists>fetched. StringFetchRow cfg bm segment i result result_idx = Some fetched
            \<and> data fetched ! result_idx = data scanned ! i" by auto
  have n0: "0 < n" using i by simp
  from fetch [OF n0] obtain r0 where r0: "StringFetchRow cfg bm segment 0 result result_idx = Some r0"
    and d0: "data r0 ! result_idx = data scanned ! 0" using idx by auto
  from rows n0 have "row_string cfg bm segment dict_end 0 = Some (data scanned ! 0)" by blast
  then obtain first a where first: "base_data segment (buffer segment) 0 = Some first"
    and a: "std_abs first = Some a"
    and f: "fetched_string cfg bm segment dict_end first (UnsafeNumericCast_uint32 (a - 0))
              = Some (data scanned ! 0)"
    by (auto simp: offset_before_def std_abs_def elim!: row_string_SomeD)
  have "a = \<bar>first\<bar>" using a std_abs_Some by blast
  moreover have "- (2 ^ 31) \<le> first \<and> first < 2 ^ 31"
    using first Load_int32_range by (auto simp: base_data_def)
  ultimately have "UnsafeNumericCast_uint32 (a - 0) = nat \<bar>first\<bar>"
    by (auto simp: UnsafeNumericCast_uint32_def to_unsigned_def)
  with f d0 have "fetched_string cfg bm segment dict_end first (nat \<bar>first\<bar>)
               = Some (data r0 ! result_idx)" by simp
  with de first r0 have 2: "\<exists>dict_end first fetched.
             GetDictionaryEnd segment (buffer segment) = Some dict_end
           \<and> base_data segment (buffer segment) 0 = Some first
           \<and> StringFetchRow cfg bm segment 0 result result_idx = Some fetched
           \<and> fetched_string cfg bm segment dict_end first (nat \<bar>first\<bar>)
               = Some (data fetched ! result_idx)" by blast
  from 1 2 show ?thesis by blast
qed

theorem C4_fetch_row_agrees_with_scan_witness:
  "\<exists>fetched. StringFetchRow example_config example_bm small_segment 1 (example_vector 1) 0
       = Some fetched \<and> data fetched ! 0 = [98, 98]"
proof -
  have mono: "\<forall>k<2. \<forall>cur prev. base_data small_segment (buffer small_segment) k = Some cur \<longrightarrow>
                 offset_before small_segment k = Some prev \<longrightarrow> \<bar>prev\<bar> \<le> \<bar>cur\<bar>"
  proof (intro allI impI)
    fix k :: nat and cur prev
    assume "k < 2" and c: "base_data small_segment (buffer small_segment) k = Some cur"
      and p: "offset_before small_segment k = Some prev"
    then have "k = 0 \<or> k = 1" by auto
    then show "\<bar>prev\<bar> \<le> \<bar>cur\<bar>"
      using c p small_segment_offsets by (auto simp: offset_before_def)
  qed
  have idx: "0 < length (data (example_vector 1))" by (simp add: example_vector_def)
  from C4_fetch_row_agrees_with_scan [OF small_segment_scan _ mono idx, of 1]
  show ?thesis by auto
qed

text \<open>
  Claim C5. For every selection list (any order, repetitions allowed) of rows of the
  segment, \<^verbatim>\<open>Select\<close> returns at each output position the value that the scan of
  the whole segment gives for the selected row; the value at a position depends on the
  index at that position only.
\<close>

theorem C5_select_per_index:
  assumes scan: "StringScan cfg bm segment 0 n result0 = Some scanned"
    and sel: "\<forall>i < length sel. start + sel ! i < n"
    and room: "length sel \<le> length (data result)"
  shows "\<exists>selected. Select cfg bm segment start result sel (length sel) = Some selected
           \<and> (\<forall>i < length sel. data selected ! i = data scanned ! (start + sel ! i))"
proof -
  from StringScan_rows [OF scan] obtain dict_end where
    de: "GetDictionaryEnd segment (buffer segment) = Some dict_end"
    and rows: "\<forall>j<n. j < length (data scanned)
                  \<and> row_string cfg bm segment dict_end j = Some (data scanned ! j)" by blast
  let ?vs = "map (\<lambda>i. data scanned ! (start + sel ! i)) [0..<length sel]"
  have "\<forall>j<length sel. 0 + j < length sel
          \<and> row_string cfg bm segment dict_end (start + sel ! (0 + j)) = Some (?vs ! j)"
    using sel rows by simp
  moreover have "length ?vs = length sel" by simp
  moreover have "0 + length sel \<le> length (data result)" using room by simp
  ultimately obtain r where
    r: "select_loop cfg bm segment dict_end start sel 0 (length sel) result = Some r"
    and d: "data r = take 0 (data result) @ ?vs @ drop (0 + length sel) (data result)"
    using select_loop_Some [of "length sel" 0 sel cfg bm segment dict_end start ?vs result]
    by blast
  have "Select cfg bm segment start result sel (length sel) = Some r"
    using de r by (simp add: Select_def)
  moreover have "\<forall>i < length sel. data r ! i = data scanned ! (start + sel ! i)"
    using d by (simp add: nth_append)
  ultimately show ?thesis by blast
qed


theorem C5_select_per_index_witness:
  "\<exists>selected. Select example_config example_bm small_segment 0 (example_vector 3) [1, 0, 1] 3
       = Some selected
     \<and> data selected ! 0 = [98, 98] \<and> data selected ! 1 = [97] \<and> data selected ! 2 = [98, 98]"
proof -
  have sel: "\<forall>i < length [1, 0, 1::nat]. 0 + [1, 0, 1] ! i < (2::nat)"
  proof (intro allI impI)
    fix i :: nat assume "i < length [1, 0, 1::nat]"
    then have "i = 0 \<or> i = 1 \<or> i = 2" by auto
    then show "0 + [1, 0, 1] ! i < (2::nat)" by auto
  qed
  have room: "length [1, 0, 1::nat] \<le> length (data (example_vector 3))"
    by (simp add: example_vector_def)
  from C5_select_per_index [OF small_segment_scan sel room] obtain selected where
    s: "Select example_config example_bm small_segment 0 (example_vector 3) [1, 0, 1]
          (length [1, 0, 1::nat]) = Some selected"
    and a: "\<forall>i < length [1, 0, 1::nat]. data selected ! i
              = data \<lparr>data = [[97], [98, 98]], auxiliary = []\<rparr> ! (0 + [1, 0, 1] ! i)"
    by blast
  from s have s': "Select example_config example_bm small_segment 0 (example_vector 3) [1, 0, 1] 3
       = Some selected" by (simp add: numeral_3_eq_3)
  from a [rule_format, of 0] have a0: "data selected ! 0 = [98, 98]" by simp
  from a [rule_format, of 1] have a1: "data selected ! 1 = [97]" by simp
  from a [rule_format, of 2] have a2: "data selected ! 2 = [98, 98]" by simp
  from s' a0 a1 a2 show ?thesis by blast
qed


text \<open>
  Claim C6. \<^verbatim>\<open>WriteStringMemory\<close> is to append the length-prefixed value to the head
  buffer when the head has room for \<open>len(value) + 4\<close> bytes, and the code says so
  (\<^verbatim>\<open>check if the string fits in the current block\<close>). Its test is
  \<^verbatim>\<open>head->offset + total_length >= head->size\<close>: where the value fits the head exactly,
  the code takes the branch \<^verbatim>\<open>string does not fit\<close>. Here the head is at offset 20 of
  32 bytes and the value takes 8 + 4 bytes: the head has room, and the code allocates a
  new buffer, links it as the new head and returns its identifier with offset 0.
\<close>

theorem C6_exact_fit_allocates:
  "head_has_room (head (segment_state (overflow_segment 20)))
     (length [1, 2, 3, 4, 5, 6, 7, 8::byte] + 4)
   \<and> (\<exists>bm' segment'.
         WriteStringMemory example_config overflow_bm (overflow_segment 20)
           [1, 2, 3, 4, 5, 6, 7, 8]
           = Some (bm', segment', 4611686018427388001, 0)
       \<and> head (segment_state segment')
           = [\<lparr>sb_block = 4611686018427388001, sb_offset = 12, sb_size = 32\<rparr>,
              \<lparr>sb_block = 4611686018427388000, sb_offset = 20, sb_size = 32\<rparr>])"
proof -
  have "head_has_room (head (segment_state (overflow_segment 20)))
          (length [1, 2, 3, 4, 5, 6, 7, 8::byte] + 4)"
    by (simp add: head_has_room_def overflow_segment_def)
  moreover have "\<exists>bm' segment'.
         WriteStringMemory example_config overflow_bm (overflow_segment 20)
           [1, 2, 3, 4, 5, 6, 7, 8]
           = Some (bm', segment', 4611686018427388001, 0)
       \<and> head (segment_state segment')
           = [\<lparr>sb_block = 4611686018427388001, sb_offset = 12, sb_size = 32\<rparr>,
              \<lparr>sb_block = 4611686018427388000, sb_offset = 20, sb_size = 32\<rparr>]"
    using WriteStringMemory_new_block [of "[1, 2, 3, 4, 5, 6, 7, 8]" "overflow_segment 20"
        example_config overflow_bm]
    by (auto simp: overflow_segment_def overflow_bm_def example_config_def)
  ultimately show ?thesis by simp
qed

text \<open>
  Claim C7. When the size required by the segment (header, offset array and dictionary)
  has reached the compaction flush limit, \<^verbatim>\<open>FinalizeAppend\<close> returns the segment
  size and leaves the segment, its block bytes and its dictionary header as they are.
\<close>

theorem C7_finalize_dense_block:
  assumes "GetDictionary segment (buffer segment) = Some dict"
    and "compaction_flush_limit cfg
           \<le> DICTIONARY_HEADER_SIZE + count segment * 4 + dictionary_size dict"
  shows "FinalizeAppend cfg segment = Some (segment_size segment, segment)"
  using assms by (simp add: FinalizeAppend_def)

theorem C7_finalize_dense_block_witness:
  "FinalizeAppend example_config dense_segment = Some (32, dense_segment)"
  using C7_finalize_dense_block [of dense_segment "\<lparr>dictionary_size = 20, dictionary_end = 32\<rparr>"
      example_config]
  by (simp add: dense_segment_def example_config_def GetDictionary_def Load_uint32_def
      memread_def DICTIONARY_HEADER_SIZE_def)

text \<open>
  Claim C8. A segment is initialised on a fresh block and the values \<open>vs\<close> are appended
  within the capacity of the block; the size required by the segment is below the
  compaction flush limit. Then \<^verbatim>\<open>FinalizeAppend\<close> compacts the block: the dictionary
  header stored in the block has \<open>end = DICTIONARY_HEADER_SIZE + count * 4 + size\<close>,
  which is the size returned, and the scan of rows \<open>0..length vs\<close> of the compacted
  segment returns \<open>vs\<close> in order.
\<close>

theorem C8_compaction_keeps_rows:
  assumes fresh: "block_offset fresh = 0" "count fresh = 0"
      "length (buffer fresh) = block_size cfg" "segment_size fresh = block_size cfg"
    and B: "block_size cfg < 2 ^ 31"
    and ids: "- (2 ^ 63) \<le> INVALID_BLOCK cfg" "INVALID_BLOCK cfg < free_block_id bm"
      "free_block_id bm + sum_list (map (\<lambda>v. 1 + int (length v)) vs) \<le> MAXIMUM_BLOCK cfg"
      "MAXIMUM_BLOCK cfg \<le> temporary_id bm" "temporary_id bm + int (length vs) \<le> 2 ^ 63"
    and ow: "\<forall>w. ow = Some w \<longrightarrow> w_block_id w = INVALID_BLOCK cfg"
    and cap: "DICTIONARY_HEADER_SIZE + 4 * length vs + used_space cfg vs \<le> block_size cfg"
    and len: "\<forall>v \<in> set vs. length v + 4 < 2 ^ 31"
    and room: "length vs \<le> length (data result)"
    and small: "DICTIONARY_HEADER_SIZE + 4 * length vs + used_space cfg vs
                  < compaction_flush_limit cfg"
  shows "\<exists>seg0 bm' seg' total compacted dict scanned.
           StringInitSegment cfg fresh (INVALID_BLOCK cfg) None = Some seg0
         \<and> append_all cfg bm
               (seg0\<lparr>segment_state := (segment_state seg0)\<lparr>overflow_writer := ow\<rparr>\<rparr>) vs
             = Some (bm', seg')
         \<and> FinalizeAppend cfg seg' = Some (total, compacted)
         \<and> GetDictionary compacted (buffer compacted) = Some dict
         \<and> dictionary_end dict
             = DICTIONARY_HEADER_SIZE + count compacted * 4 + dictionary_size dict
         \<and> total = dictionary_end dict
         \<and> StringScan cfg bm' compacted 0 (length vs) result = Some scanned
         \<and> take (length vs) (data scanned) = vs"
proof -
  from appended_segment [OF fresh B ids ow cap len] obtain seg0 bm' seg' where
    ini: "StringInitSegment cfg fresh (INVALID_BLOCK cfg) None = Some seg0"
    and a: "append_all cfg bm
               (seg0\<lparr>segment_state := (segment_state seg0)\<lparr>overflow_writer := ow\<rparr>\<rparr>) vs
             = Some (bm', seg')"
    and inv: "segment_inv cfg bm' seg' vs"
    by (elim exE conjE) (rule that, assumption+)
  let ?total = "DICTIONARY_HEADER_SIZE + 4 * length vs + used_space cfg vs"
  let ?d = "\<lparr>dictionary_size = used_space cfg vs, dictionary_end = ?total\<rparr>"
  from inv have bo: "block_offset seg' = 0" and cnt: "count seg' = length vs"
    unfolding segment_inv_def by simp_all
  from FinalizeAppend_compacts [OF inv small B] obtain h where
    f: "FinalizeAppend cfg seg' = Some (?total, seg'\<lparr>buffer := h\<rparr>)"
    and gd: "GetDictionary seg' h = Some ?d"
    and rows: "\<forall>i < length vs. row_stored cfg bm' (seg'\<lparr>buffer := h\<rparr>) ?total vs i"
    by blast
  let ?cmp = "seg'\<lparr>buffer := h\<rparr>"
  have gd': "GetDictionary ?cmp (buffer ?cmp) = Some ?d"
    using gd by (simp add: GetDictionary_def)
  have de: "GetDictionaryEnd ?cmp (buffer ?cmp) = Some ?total"
    using GetDictionary_End [OF gd'] by simp
  have tl: "?total < 2 ^ 31" using cap B by simp
  have bo': "block_offset ?cmp = 0" using bo by simp
  from rows_stored_scan [OF rows de tl bo' B room] obtain scanned where
    s: "StringScan cfg bm' ?cmp 0 (length vs) result = Some scanned"
    and d: "data scanned = vs @ drop (length vs) (data result)" by blast
  have t: "take (length vs) (data scanned) = vs" using d by simp
  have e: "dictionary_end ?d = DICTIONARY_HEADER_SIZE + count ?cmp * 4 + dictionary_size ?d"
    using cnt by simp
  have e2: "?total = dictionary_end ?d" by simp
  from ini a f gd' e e2 s t show ?thesis by (intro exI conjI) assumption+
qed

theorem C8_compaction_keeps_rows_witness:
  "\<exists>seg0 bm' seg' total compacted dict scanned.
     StringInitSegment example_config (example_segment []) (INVALID_BLOCK example_config) None
       = Some seg0
   \<and> append_all example_config example_bm
         (seg0\<lparr>segment_state := (segment_state seg0)\<lparr>overflow_writer := None\<rparr>\<rparr>) compact_values
       = Some (bm', seg')
   \<and> FinalizeAppend example_config seg' = Some (total, compacted)
   \<and> GetDictionary compacted (buffer compacted) = Some dict
   \<and> dictionary_end dict
       = DICTIONARY_HEADER_SIZE + count compacted * 4 + dictionary_size dict
   \<and> total = dictionary_end dict
   \<and> StringScan example_config bm' compacted 0 (length compact_values) (example_vector 2)
       = Some scanned
   \<and> take (length compact_values) (data scanned) = compact_values"
proof -
  have fresh: "block_offset (example_segment []) = 0" "count (example_segment []) = 0"
      "length (buffer (example_segment [])) = block_size example_config"
      "segment_size (example_segment []) = block_size example_config"
    by (simp_all add: example_segment_def example_config_def)
  have B: "block_size example_config < 2 ^ 31" by (simp add: example_config_def)
  have ids: "- (2 ^ 63) \<le> INVALID_BLOCK example_config"
      "INVALID_BLOCK example_config < free_block_id example_bm"
      "free_block_id example_bm + sum_list (map (\<lambda>v. 1 + int (length v)) compact_values)
         \<le> MAXIMUM_BLOCK example_config"
      "MAXIMUM_BLOCK example_config \<le> temporary_id example_bm"
      "temporary_id example_bm + int (length compact_values) \<le> 2 ^ 63"
    by (simp_all add: example_config_def example_bm_def compact_values_def)
  have ow: "\<forall>w. None = Some w \<longrightarrow> w_block_id w = INVALID_BLOCK example_config" by simp
  have cap: "DICTIONARY_HEADER_SIZE + 4 * length compact_values
               + used_space example_config compact_values \<le> block_size example_config"
    by (simp add: example_config_def compact_values_def used_space_def required_space_def
        DICTIONARY_HEADER_SIZE_def BIG_STRING_MARKER_SIZE_def sizeof_block_id_t_def)
  have len: "\<forall>v \<in> set compact_values. length v + 4 < 2 ^ 31"
    by (simp add: compact_values_def)
  have room: "length compact_values \<le> length (data (example_vector 2))"
    by (simp add: compact_values_def example_vector_def)
  have small: "DICTIONARY_HEADER_SIZE + 4 * length compact_values
               + used_space example_config compact_values
                 < compaction_flush_limit example_config"
    by (simp add: example_config_def compact_values_def used_space_def required_space_def
        DICTIONARY_HEADER_SIZE_def BIG_STRING_MARKER_SIZE_def sizeof_block_id_t_def)
  show ?thesis
    by (rule C8_compaction_keeps_rows [OF fresh B ids ow cap len room small])
qed

text \<open>
  Claim C9. \<^verbatim>\<open>SerializeState\<close> returns no serialized state exactly when the segment
  has no durable overflow block, and on reload the absence gives a state with an empty
  list; otherwise the serialized state, written by \<^verbatim>\<open>Serialize\<close> and read back by
  \<^verbatim>\<open>DeserializeState\<close>, is the same list of identifiers in the same order, which
  \<^verbatim>\<open>StringInitSegment\<close> adopts.
\<close>

theorem C9_serialize_roundtrip:
  assumes "block_id \<noteq> INVALID_BLOCK cfg"
  shows "(SerializeState segment = None \<longleftrightarrow> on_disk_blocks (segment_state segment) = [])
       \<and> (case SerializeState segment of
             None \<Rightarrow> True
           | Some st \<Rightarrow> DeserializeState (Serialize st []) = Some st
                        \<and> ser_blocks st = on_disk_blocks (segment_state segment))
       \<and> map_option (\<lambda>segment'. on_disk_blocks (segment_state segment'))
            (StringInitSegment cfg reloaded block_id
               (Option.bind (map_option (\<lambda>st. Serialize st []) (SerializeState segment))
                  DeserializeState))
          = Some (on_disk_blocks (segment_state segment))"
  using assms
  by (simp add: SerializeState_def DeserializeState_def Serialize_def WriteProperty_def
      ReadProperty_def StringInitSegment_def Let_def)

theorem C9_serialize_roundtrip_witness:
  "(SerializeState (example_segment []) = None
      \<and> map_option (\<lambda>segment'. on_disk_blocks (segment_state segment'))
            (StringInitSegment example_config (example_segment []) 7
               (Option.bind (map_option (\<lambda>st. Serialize st []) (SerializeState (example_segment [])))
                  DeserializeState)) = Some [])
   \<and> (SerializeState (example_segment [5, 3, 9]) = Some \<lparr>ser_blocks = [5, 3, 9]\<rparr>
      \<and> DeserializeState (Serialize \<lparr>ser_blocks = [5, 3, 9]\<rparr> []) = Some \<lparr>ser_blocks = [5, 3, 9]\<rparr>
      \<and> map_option (\<lambda>segment'. on_disk_blocks (segment_state segment'))
            (StringInitSegment example_config (example_segment []) 7
               (Option.bind (map_option (\<lambda>st. Serialize st []) (SerializeState (example_segment [5, 3, 9])))
                  DeserializeState)) = Some [5, 3, 9])"
  using C9_serialize_roundtrip [of 7 example_config "example_segment []" "example_segment []"]
    C9_serialize_roundtrip [of 7 example_config "example_segment [5, 3, 9]" "example_segment []"]
  by (auto simp: example_config_def example_segment_def example_state_def SerializeState_def)

text \<open>
  Claim C10. For every block identifier and every 32-bit offset, a marker written by
  \<^verbatim>\<open>WriteStringMarker\<close> into a buffer with room for it is read back by
  \<^verbatim>\<open>ReadStringMarker\<close> as the same pair; the block identifier is stored first and
  the offset immediately after it.
\<close>

theorem C10_marker_roundtrip:
  assumes "target + BIG_STRING_MARKER_SIZE \<le> length mem"
    and "- (2 ^ 63) \<le> block_id" and "block_id < 2 ^ 63"
    and "- (2 ^ 31) \<le> offset" and "offset < 2 ^ 31"
  shows "\<exists>mem'. WriteStringMarker mem target block_id offset = Some mem'
           \<and> ReadStringMarker mem' target = Some (block_id, offset)
           \<and> Load_block_id mem' target = Some block_id
           \<and> Load_int32 mem' (target + sizeof_block_id_t) = Some offset"
proof -
  from assms(1) obtain mem' where w: "WriteStringMarker mem target block_id offset = Some mem'"
    using WriteStringMarker_Some by blast
  from ReadStringMarker_WriteStringMarker [OF w assms(2-5)] w show ?thesis by blast
qed

theorem C10_marker_roundtrip_witness:
  "\<exists>mem'. WriteStringMarker (replicate 16 0) 2 4611686018427388000 (- 5) = Some mem'
           \<and> ReadStringMarker mem' 2 = Some (4611686018427388000, - 5)
           \<and> Load_block_id mem' 2 = Some 4611686018427388000
           \<and> Load_int32 mem' (2 + sizeof_block_id_t) = Some (- 5)"
  using C10_marker_roundtrip [of 2 "replicate 16 0" 4611686018427388000 "- 5"]
  by (simp add: BIG_STRING_MARKER_SIZE_def sizeof_block_id_t_def)

end
